theory Spec2Isabelle
  imports Complex_Main
begin

section \<open>JavaScript strings\<close>

text \<open>
  A JavaScript string is a sequence of UTF-16 code units. The embedding uses \<open>string\<close>,
  whose characters are the code units \<open>0x00\<close> to \<open>0xFF\<close>; \<open>length\<close> is the
  \<open>.length\<close> of the source. On this range the white space of \<open>\s\<close> and of
  \<open>trim()\<close> is TAB, LF, VT, FF, CR, SPACE and NBSP, the line terminators excluded by
  \<open>.\<close> are LF and CR, and \<open>toLowerCase()\<close> maps \<open>A-Z\<close> and the Latin-1 capitals
  \<open>0xC0-0xDE\<close> (without \<open>0xD7\<close>) to the code unit 32 above.
\<close>

definition is_ws :: "char \<Rightarrow> bool" where
  "is_ws c = (c \<in> set [CHR 0x09, CHR 0x0A, CHR 0x0B, CHR 0x0C, CHR 0x0D, CHR 0x20, CHR 0xA0])"

definition is_lt :: "char \<Rightarrow> bool" where
  "is_lt c = (c \<in> set [CHR 0x0A, CHR 0x0D])"

definition trim :: "string \<Rightarrow> string" where
  "trim s = rev (dropWhile is_ws (rev (dropWhile is_ws s)))"

definition lower_char :: "char \<Rightarrow> char" where
  "lower_char c =
     (let n = (of_char c :: nat)
      in if (65 \<le> n \<and> n \<le> 90) \<or> (192 \<le> n \<and> n \<le> 222 \<and> n \<noteq> 215)
         then char_of (n + 32) else c)"

definition toLowerCase :: "string \<Rightarrow> string" where
  "toLowerCase s = map lower_char s"

text \<open>\<open>starts_with s p\<close>: the string \<open>s\<close> begins with \<open>p\<close>.\<close>

fun starts_with :: "string \<Rightarrow> string \<Rightarrow> bool" where
  "starts_with s [] = True"
| "starts_with [] (p # ps) = False"
| "starts_with (c # cs) (p # ps) = (c = p \<and> starts_with cs ps)"

text \<open>\<open>js_includes s p\<close> is \<open>s.includes(p)\<close>: \<open>p\<close> occurs in \<open>s\<close> as a substring.\<close>

fun js_includes :: "string \<Rightarrow> string \<Rightarrow> bool" where
  "js_includes [] p = (p = [])"
| "js_includes (c # cs) p = (starts_with (c # cs) p \<or> js_includes cs p)"

text \<open>
  \<open>split_ws s\<close> is \<open>s.split(/\s+/)\<close>: the pieces between the maximal runs of white
  space. A run at the start or at the end of \<open>s\<close> leaves an empty piece there, and the
  empty string gives the one-element array \<open>[""]\<close>, since \<open>/\s+/\<close> does not match
  the empty string.
\<close>

function split_ws :: "string \<Rightarrow> string list" where
  "split_ws s =
     (let piece = takeWhile (\<lambda>c. \<not> is_ws c) s;
          rest = dropWhile (\<lambda>c. \<not> is_ws c) s
      in if rest = [] then [piece] else piece # split_ws (dropWhile is_ws rest))"
  by pat_completeness auto
termination
proof (relation "measure length")
  show "wf (measure length)" by simp
next
  fix s :: string and piece rest :: string
  assume r: "rest = dropWhile (\<lambda>c. \<not> is_ws c) s" and ne: "rest \<noteq> []"
  from ne obtain c cs where rc: "rest = c # cs" by (cases rest) auto
  from r ne have ne': "dropWhile (\<lambda>c. \<not> is_ws c) s \<noteq> []" by simp
  have "is_ws (hd rest)" unfolding r using hd_dropWhile [OF ne'] by simp
  then have "is_ws c" using rc by simp
  then have "length (dropWhile is_ws rest) \<le> length cs"
    using rc by (simp add: length_dropWhile_le)
  moreover have "length rest \<le> length s"
    using r by (simp add: length_dropWhile_le)
  ultimately show "(dropWhile is_ws rest, s) \<in> measure length"
    using rc by simp
qed

declare split_ws.simps [simp del]

text \<open>
  \<open>split_lines s\<close> is \<open>s.split('\n')\<close>: the pieces between the LF characters, one more
  than there are LFs.
\<close>

fun split_lines :: "string \<Rightarrow> string list" where
  "split_lines [] = [[]]"
| "split_lines (c # cs) =
     (if c = CHR 0x0A then [] # split_lines cs
      else (case split_lines cs of [] \<Rightarrow> [[c]] | l # ls \<Rightarrow> (c # l) # ls))"

text \<open>
  The count of white-space-delimited tokens of a string, the reading of the word count in
  the data model: the number of maximal runs of characters that are not white space. The
  flag says whether the previous character was white space (or the string starts here).
\<close>

fun count_tokens_from :: "bool \<Rightarrow> string \<Rightarrow> nat" where
  "count_tokens_from prev_ws [] = 0"
| "count_tokens_from prev_ws (c # cs) =
     (if is_ws c then count_tokens_from True cs
      else (if prev_ws then 1 else 0) + count_tokens_from False cs)"

definition count_tokens :: "string \<Rightarrow> nat" where
  "count_tokens s = count_tokens_from True s"

text \<open>
  A regular expression with the flag \<open>i\<close> whose literal characters are lower-case ASCII
  letters, spaces, colons and the copyright sign matches a character exactly when
  \<open>lower_char\<close> maps it to the pattern's character. \<open>starts_with_ci s p\<close>: the string
  \<open>s\<close> begins with such a pattern \<open>p\<close>, case ignored. \<open>first_alternative alts s\<close> is
  the first of the alternatives \<open>alts\<close> that \<open>s\<close> begins with.
\<close>

fun starts_with_ci :: "string \<Rightarrow> string \<Rightarrow> bool" where
  "starts_with_ci s [] = True"
| "starts_with_ci [] (p # ps) = False"
| "starts_with_ci (c # cs) (p # ps) = (lower_char c = p \<and> starts_with_ci cs ps)"

definition first_alternative :: "string list \<Rightarrow> string \<Rightarrow> string option" where
  "first_alternative alts s = find (starts_with_ci s) alts"

section \<open>The document tree\<close>

text \<open>
  The rendered page is queried through cheerio. An element is what the extractors read of
  it: its \<open>text()\<close>, its \<open>class\<close> and \<open>id\<close> attributes (absent or a string) and the
  number of \<open>p\<close> elements below it (\<open>find('p').length\<close>). A document maps a selector to
  the elements it matches, in document order.
\<close>

record element =
  el_text :: string
  el_class :: "string option"
  el_id :: "string option"
  el_p_count :: nat

type_synonym dom = "string \<Rightarrow> element list"

text \<open>\<open>attr(name) || ''\<close>: an absent attribute reads as the empty string.\<close>

definition attr_or_empty :: "string option \<Rightarrow> string" where
  "attr_or_empty a = (case a of None \<Rightarrow> [] | Some v \<Rightarrow> v)"

text \<open>\<open>$(sel).first().text()\<close> and \<open>$(sel).text()\<close>.\<close>

definition first_text :: "dom \<Rightarrow> string \<Rightarrow> string" where
  "first_text d sel = (case d sel of [] \<Rightarrow> [] | e # _ \<Rightarrow> el_text e)"

definition all_text :: "dom \<Rightarrow> string \<Rightarrow> string" where
  "all_text d sel = concat (map el_text (d sel))"

section \<open>Title extraction\<close>

text \<open>
  \<open>cleanTitle\<close> applies five \<open>replace\<close> calls, each removing the first (leftmost) match
  of its pattern, and trims. Four patterns end in \<open>$\<close>: their match runs to the end of the
  string, so the replacement cuts the string at the leftmost position from which the
  pattern matches the whole remainder (\<open>cut_at\<close>).
\<close>

fun cut_at :: "(string \<Rightarrow> bool) \<Rightarrow> string \<Rightarrow> string" where
  "cut_at m [] = []"
| "cut_at m (c # cs) = (if m (c # cs) then [] else c # cut_at m cs)"

text \<open>
  The class \<open>[-|\<dots>]\<close> of the first pattern: hyphen and pipe (its en dash and em dash lie
  outside the code units of \<open>string\<close>).
\<close>

definition is_sep :: "char \<Rightarrow> bool" where
  "is_sep c = (c = CHR ''-'' \<or> c = CHR ''|'')"

text \<open>
  \<open>\s*.+$\<close> on the text after the separator: \<open>\s*\<close> takes some \<open>k\<close> of the leading white
  space (the matcher backtracks over \<open>k\<close>), and what is left must be one character or more,
  none a line terminator.
\<close>

definition rest_of_line :: "string \<Rightarrow> bool" where
  "rest_of_line r =
     list_ex (\<lambda>k. drop k r \<noteq> [] \<and> list_all (\<lambda>c. \<not> is_lt c) (drop k r))
       [0 ..< Suc (length (takeWhile is_ws r))]"

text \<open>\<open>/\s*[-|\<dots>]\s*.+$/\<close> and \<open>/\s*\|\s*.+$/\<close>, matched from the start of \<open>t\<close>.\<close>

definition suffix_after :: "(char \<Rightarrow> bool) \<Rightarrow> string \<Rightarrow> bool" where
  "suffix_after sep t =
     (case dropWhile is_ws t of [] \<Rightarrow> False | c # r \<Rightarrow> sep c \<and> rest_of_line r)"

text \<open>\<open>/^(story|chapter|part)\s*:?\s*/i\<close>: each quantifier is greedy and nothing follows.\<close>

definition strip_role :: "string \<Rightarrow> string" where
  "strip_role s =
     (case first_alternative [''story'', ''chapter'', ''part''] s of
        None \<Rightarrow> s
      | Some k \<Rightarrow>
          (let r = dropWhile is_ws (drop (length k) s);
               r' = (case r of [] \<Rightarrow> [] | c # cs \<Rightarrow> if c = CHR '':'' then cs else c # cs)
           in dropWhile is_ws r'))"

text \<open>\<open>/\s*-\s*(read online|free|story)$/i\<close>, matched from the start of \<open>t\<close>.\<close>

definition qualifier_suffix :: "string \<Rightarrow> bool" where
  "qualifier_suffix t =
     (case dropWhile is_ws t of
        [] \<Rightarrow> False
      | c # r \<Rightarrow> c = CHR ''-'' \<and>
          toLowerCase (dropWhile is_ws r) \<in> set [''read online'', ''free'', ''story''])"

text \<open>\<open>/\s*\(.*\)$/\<close>, matched from the start of \<open>t\<close>.\<close>

definition paren_suffix :: "string \<Rightarrow> bool" where
  "paren_suffix t =
     (case dropWhile is_ws t of
        [] \<Rightarrow> False
      | c # r \<Rightarrow> c = CHR ''('' \<and> r \<noteq> [] \<and> last r = CHR '')'' \<and>
          list_all (\<lambda>c. \<not> is_lt c) (butlast r))"

definition cleanTitle :: "string \<Rightarrow> string" where
  "cleanTitle title =
     (if title = [] then []
      else
        (let t1 = cut_at (suffix_after is_sep) title;
             t2 = cut_at (suffix_after (\<lambda>c. c = CHR ''|'')) t1;
             t3 = strip_role t2;
             t4 = cut_at qualifier_suffix t3;
             t5 = cut_at paren_suffix t4
         in trim t5))"

definition primarySelectors :: "string list" where
  "primarySelectors =
     [''h1.story-title'', ''h1.post-title'', ''h1.chapter-title'',
      ''.story-title'', ''.post-title'', ''.chapter-title'', ''.entry-title'',
      ''h1.title'', ''.title h1'', ''#title h1'',
      ''article h1'', ''main h1'', ''.content h1'']"

text \<open>\<open>text && text.length > 3 && text.length < 200\<close>\<close>

definition title_length_ok :: "string \<Rightarrow> bool" where
  "title_length_ok text = (text \<noteq> [] \<and> length text > 3 \<and> length text < 200)"

fun try_primary :: "dom \<Rightarrow> string list \<Rightarrow> string option" where
  "try_primary d [] = None"
| "try_primary d (sel # sels) =
     (case d sel of
        [] \<Rightarrow> try_primary d sels
      | e # _ \<Rightarrow>
          (let text = trim (el_text e)
           in if title_length_ok text then Some (cleanTitle text) else try_primary d sels))"

fun try_headings :: "dom \<Rightarrow> string list \<Rightarrow> string option" where
  "try_headings d [] = None"
| "try_headings d (sel # sels) =
     (let text = trim (first_text d sel)
      in if title_length_ok text then Some (cleanTitle text) else try_headings d sels)"

definition extractTitle :: "dom \<Rightarrow> string" where
  "extractTitle d =
     (case try_primary d primarySelectors of
        Some t \<Rightarrow> t
      | None \<Rightarrow>
          (let h1Text = trim (first_text d ''h1'')
           in if title_length_ok h1Text then cleanTitle h1Text
              else
                (case try_headings d [''h2'', ''h3''] of
                   Some t \<Rightarrow> t
                 | None \<Rightarrow>
                     (let pageTitle = trim (all_text d ''title'')
                      in if pageTitle \<noteq> [] \<and> length pageTitle > 3
                         then (let cleanedTitle = cleanTitle pageTitle
                               in if length cleanedTitle > 3 \<and> length cleanedTitle < 200
                                  then cleanedTitle else ''Untitled Story'')
                         else ''Untitled Story''))))"

section \<open>Content scoring and extraction\<close>

text \<open>The lines of a text that are not blank: \<open>text.split('\n').filter(line => line.trim().length > 0)\<close>.\<close>

definition nonempty_lines :: "string \<Rightarrow> string list" where
  "nonempty_lines text = filter (\<lambda>line. length (trim line) > 0) (split_lines text)"

text \<open>
  \<open>lines.length > 0 ? text.length / lines.length : 0\<close>. The quotient of the two lengths is
  a rational; the comparisons of the source with 20 and 30 give on the double nearest to it
  what they give on the rational itself.
\<close>

definition avgLineLength :: "string \<Rightarrow> rat" where
  "avgLineLength text =
     (let lines = nonempty_lines text
      in if length lines > 0 then of_nat (length text) / of_nat (length lines) else 0)"

definition storyKeywords_class :: "string list" where
  "storyKeywords_class = [''story'', ''chapter'', ''content'', ''text'', ''body'', ''post'']"

definition navKeywords :: "string list" where
  "navKeywords = [''nav'', ''menu'', ''sidebar'', ''footer'', ''header'']"

definition scoreContentElement :: "element \<Rightarrow> string \<Rightarrow> int" where
  "scoreContentElement el text =
     (let score = int (length text);
          paragraphs = el_p_count el;
          score = score + int paragraphs * 50;
          className = attr_or_empty (el_class el);
          score = fold (\<lambda>keyword sc. if js_includes className keyword then sc + 100 else sc)
                    storyKeywords_class score;
          score = fold (\<lambda>keyword sc. if js_includes className keyword then sc - 200 else sc)
                    navKeywords score
      in if avgLineLength text < 30 then score - 100 else score)"

text \<open>\<open>group.join('\n\n')\<close>\<close>

fun join_paragraphs :: "string list \<Rightarrow> string" where
  "join_paragraphs [] = []"
| "join_paragraphs [g] = g"
| "join_paragraphs (g # h # gs) = g @ [CHR 0x0A, CHR 0x0A] @ join_paragraphs (h # gs)"

text \<open>
  The grouping loop of \<open>extractFromParagraphs\<close>; the state is the list of closed groups
  and the current group.
\<close>

definition group_step :: "string list list \<times> string list \<Rightarrow> element \<Rightarrow> string list list \<times> string list" where
  "group_step st el =
     (let text = trim (el_text el)
      in if length text > 20 then (fst st, snd st @ [text])
         else if length (snd st) > 0 then (fst st @ [snd st], [])
         else st)"

definition extractFromParagraphs :: "dom \<Rightarrow> string" where
  "extractFromParagraphs d =
     (let st = foldl group_step ([], []) (d ''p'');
          paragraphGroups = (if length (snd st) > 0 then fst st @ [snd st] else fst st)
      in fst (foldl (\<lambda>best group.
                (let content = join_paragraphs group;
                     score = length content + length group * 20
                 in if score > snd best then (content, score) else best))
           ([], 0 :: nat) paragraphGroups))"

definition boilerplateKeywords :: "string list" where
  "boilerplateKeywords =
     [''nav'', ''menu'', ''sidebar'', ''footer'', ''header'',
      ''advertisement'', ''ad'', ''social'', ''share'',
      ''comment'', ''related'', ''recommended'']"

definition isLikelyBoilerplate :: "element \<Rightarrow> string \<Rightarrow> bool" where
  "isLikelyBoilerplate el text =
     (let className = toLowerCase (attr_or_empty (el_class el));
          ident = toLowerCase (attr_or_empty (el_id el))
      in if list_ex (\<lambda>keyword. js_includes className keyword \<or> js_includes ident keyword)
              boilerplateKeywords
         then True
         else avgLineLength text < 20 \<and> length (nonempty_lines text) > 5)"

definition findLargestTextBlock :: "dom \<Rightarrow> string" where
  "findLargestTextBlock d =
     foldl (\<lambda>bestContent el.
        (let text = trim (el_text el)
         in if isLikelyBoilerplate el text then bestContent
            else if length text > length bestContent \<and> length text > 100 then text
            else bestContent))
       [] (d ''div, section, article, main'')"

text \<open>\<open>content.replace(/\s+/g, ' ')\<close>: every maximal run of white space becomes one space.\<close>

function collapse_ws :: "string \<Rightarrow> string" where
  "collapse_ws [] = []"
| "collapse_ws (c # cs) =
     (if is_ws c then CHR '' '' # collapse_ws (dropWhile is_ws cs) else c # collapse_ws cs)"
  by pat_completeness auto
termination
  by (relation "measure length") (auto simp: length_dropWhile_le less_Suc_eq_le)

text \<open>
  A pattern \<open>/^(a|b|\<dots>)/i\<close> removes the first alternative that the string starts with;
  a pattern \<open>/(a|b|\<dots>)/i\<close> removes, at the leftmost position where an alternative
  matches, the first alternative that matches there.
\<close>

definition remove_prefix_ci :: "string list \<Rightarrow> string \<Rightarrow> string" where
  "remove_prefix_ci alts s =
     (case first_alternative alts s of None \<Rightarrow> s | Some a \<Rightarrow> drop (length a) s)"

fun remove_first_ci :: "string list \<Rightarrow> string \<Rightarrow> string" where
  "remove_first_ci alts [] = []"
| "remove_first_ci alts (c # cs) =
     (case first_alternative alts (c # cs) of
        Some a \<Rightarrow> drop (length a) (c # cs)
      | None \<Rightarrow> c # remove_first_ci alts cs)"

definition cleanContent :: "string \<Rightarrow> string" where
  "cleanContent content =
     (if content = [] then []
      else
        (let c0 = trim (collapse_ws content);
             c1 = remove_prefix_ci
                    [''home'', ''back to top'', ''skip to content'', ''menu'', ''navigation''] c0;
             c2 = remove_first_ci [''copyright'', ''all rights reserved'', [CHR 0xA9]] c1;
             c3 = remove_prefix_ci [''share'', ''like'', ''tweet'', ''pin''] c2
         in trim c3))"

definition contentSelectors :: "string list" where
  "contentSelectors =
     [''article'',
      ''.story-content'', ''.story-text'', ''.story-body'',
      ''.chapter-content'', ''.chapter-text'', ''.chapter-body'',
      ''.post-content'', ''.post-body'', ''.post-text'',
      ''.content'', ''.main-content'',
      ''main'',
      ''.entry-content'',
      ''#content'',
      ''.text-content'']"

text \<open>
  \<open>extractContent\<close> reads the document after \<open>removeUnwantedElements\<close> has taken the
  unwanted subtrees out of it: its argument is that filtered document.
\<close>

definition extractContent :: "dom \<Rightarrow> string" where
  "extractContent d =
     (let best = foldl (\<lambda>best el.
                    (let text = trim (el_text el);
                         score = scoreContentElement el text
                     in if score > snd best \<and> length text > 100 then (text, score) else best))
                  ([], 0 :: int) (concat (map d contentSelectors));
          bestContent = fst best;
          bestContent = (if length bestContent < 200 then extractFromParagraphs d else bestContent);
          bestContent = (if length bestContent < 200 then findLargestTextBlock d else bestContent)
      in cleanContent bestContent)"

section \<open>Storage\<close>

text \<open>
  The table \<open>stories\<close> as \<open>migrateDatabase\<close> creates it: the rows in rowid order and
  the AUTOINCREMENT counter, the largest rowid the table has held so far. The column \<open>url\<close> is declared \<open>UNIQUE\<close>, so
  \<open>INSERT OR REPLACE\<close> deletes the rows whose url equals the new one before it inserts.
  The columns \<open>scraped_at\<close> and \<open>tags\<close> are not read by the crawl and are left out.
  Every statement is taken to run without a database error.
\<close>

record story_row =
  row_id :: nat
  row_url :: string
  row_title :: string
  row_content :: string
  row_author :: "string option"
  row_word_count :: nat
  row_domain :: string

record database =
  db_rows :: "story_row list"
  db_seq :: nat

definition empty_database :: database where
  "empty_database = \<lparr>db_rows = [], db_seq = 0\<rparr>"

text \<open>The value \<open>scrape\<close> returns: \<open>{ title, content, author, wordCount, domain }\<close>.\<close>

record story =
  st_title :: string
  st_content :: string
  st_author :: "string option"
  st_wordCount :: nat
  st_domain :: string

definition insert_or_replace :: "database \<Rightarrow> string \<Rightarrow> story \<Rightarrow> database" where
  "insert_or_replace db u st =
     \<lparr>db_rows = filter (\<lambda>r. row_url r \<noteq> u) (db_rows db) @
        [\<lparr>row_id = Suc (db_seq db), row_url = u, row_title = st_title st,
          row_content = st_content st, row_author = st_author st,
          row_word_count = st_wordCount st, row_domain = st_domain st\<rparr>],
      db_seq = Suc (db_seq db)\<rparr>"

definition getStoryByUrl :: "database \<Rightarrow> string \<Rightarrow> story_row option" where
  "getStoryByUrl db u = find (\<lambda>r. row_url r = u) (db_rows db)"

definition deleteStoryByUrl :: "database \<Rightarrow> string \<Rightarrow> database" where
  "deleteStoryByUrl db u = db\<lparr>db_rows := filter (\<lambda>r. row_url r \<noteq> u) (db_rows db)\<rparr>"

section \<open>The renderer and the single-page scrape\<close>

text \<open>
  What the browser and the URL parser give the scraper. A rendered page carries the
  document as loaded (read by \<open>extractTitle\<close>), the document after
  \<open>removeUnwantedElements\<close> (read by \<open>extractContent\<close>), the result of
  \<open>extractAuthor\<close>, which is not embedded, and for a link selector the elements it matches:
  their \<open>href\<close>, their text and the text of their parent.
  The engine v3 removes another list of elements before it reads the content and has an
  \<open>extractAuthor\<close> of its own: the page carries that filtered document and that result as
  well.
  Loading a page either fails with an error message or gives the page;
  \<open>resolve href base\<close> is \<open>new URL(href, base).href\<close> (\<open>None\<close> when it throws) and
  \<open>hostname u\<close> is \<open>new URL(u).hostname\<close>.
\<close>

record anchor =
  a_href :: "string option"
  a_text :: string
  a_parent_text :: string

record page =
  page_dom :: dom
  page_dom_filtered :: dom
  page_author :: "string option"
  page_anchors :: "string \<Rightarrow> anchor list"
  page_dom_filtered_v3 :: dom
  page_author_v3 :: "string option"

record site =
  browse :: "string \<Rightarrow> string + page"
  resolve :: "string \<Rightarrow> string \<Rightarrow> string option"
  hostname :: "string \<Rightarrow> string"

text \<open>The state the scraper changes: the database, and the pages it has asked the browser for.\<close>

record world =
  w_db :: database
  w_fetched :: "string list"

definition wordCount_of :: "string \<Rightarrow> nat" where
  "wordCount_of content = length (split_ws content)"

definition scrape :: "site \<Rightarrow> world \<Rightarrow> string \<Rightarrow> (string + story) \<times> world" where
  "scrape s w u =
     (let w1 = w\<lparr>w_fetched := w_fetched w @ [u]\<rparr>
      in case browse s u of
           Inl err \<Rightarrow> (Inl err, w1)
         | Inr pg \<Rightarrow>
             (let title = extractTitle (page_dom pg);
                  content = extractContent (page_dom_filtered pg);
                  author = page_author pg;
                  domain = hostname s u;
                  wordCount = wordCount_of content;
                  st = \<lparr>st_title = title, st_content = content, st_author = author,
                        st_wordCount = wordCount, st_domain = domain\<rparr>
              in (Inr st, w1\<lparr>w_db := insert_or_replace (w_db w1) u st\<rparr>)))"

section \<open>Link discovery\<close>

record link =
  link_url :: string
  link_text :: string
  link_parentText :: string

record options =
  linkSelector :: string
  filterPatterns :: "string list"
  excludePatterns :: "string list"
  maxLinks :: int
  sameDomainOnly :: bool
  minContentLength :: int
  storyKeywords :: "string list"

definition default_options :: options where
  "default_options =
     \<lparr>linkSelector = ''a[href]'',
      filterPatterns = [],
      excludePatterns = [''/css/'', ''/js/'', ''/images/'', ''.jpg'', ''.png'', ''.gif'',
                         ''.pdf'', ''.zip'', ''.exe'', ''mailto:'', ''tel:''],
      maxLinks = 50,
      sameDomainOnly = True,
      minContentLength = 500,
      storyKeywords = [''story'', ''chapter'', ''tale'', ''fiction'', ''novel'', ''book'', ''read'']\<rparr>"

text \<open>The scan of the page: an element without \<open>href\<close> (or with an empty one) and an
  \<open>href\<close> that does not resolve are skipped.\<close>

fun collect_links :: "site \<Rightarrow> string \<Rightarrow> anchor list \<Rightarrow> link list" where
  "collect_links s pageUrl [] = []"
| "collect_links s pageUrl (a # as) =
     (case a_href a of
        None \<Rightarrow> collect_links s pageUrl as
      | Some href \<Rightarrow>
          if href = [] then collect_links s pageUrl as
          else (case resolve s href pageUrl of
                  None \<Rightarrow> collect_links s pageUrl as
                | Some fullUrl \<Rightarrow>
                    \<lparr>link_url = fullUrl, link_text = trim (a_text a),
                     link_parentText = trim (a_parent_text a)\<rparr> # collect_links s pageUrl as))"

definition excludeTexts :: "string list" where
  "excludeTexts = [''home'', ''about'', ''contact'', ''login'', ''register'', ''search'',
                   ''menu'', ''navigation'', ''footer'', ''header'', ''sidebar'']"

definition genericTexts :: "string list" where
  "genericTexts = [''more'', ''click'', ''here'', ''link'', ''page'']"

definition is_digit :: "char \<Rightarrow> bool" where
  "is_digit c = (48 \<le> (of_char c :: nat) \<and> (of_char c :: nat) \<le> 57)"

text \<open>The three heuristics of the last step of the filter.\<close>

definition hasStoryKeywords :: "options \<Rightarrow> string \<Rightarrow> string \<Rightarrow> bool" where
  "hasStoryKeywords opts u text =
     list_ex (\<lambda>keyword. js_includes u keyword \<or> js_includes text keyword) (storyKeywords opts)"

definition hasMeaningfulText :: "link \<Rightarrow> bool" where
  "hasMeaningfulText l = (length (link_text l) > 10 \<and> length (link_text l) < 200)"

text \<open>\<open>/chapter|part|episode|\d+/.test(text)\<close>\<close>

definition hasChapterNumbers :: "string \<Rightarrow> bool" where
  "hasChapterNumbers text =
     (js_includes text ''chapter'' \<or> js_includes text ''part'' \<or> js_includes text ''episode''
      \<or> list_ex is_digit text)"

text \<open>The callback of \<open>allLinks.filter\<close>.\<close>

definition link_filter :: "site \<Rightarrow> options \<Rightarrow> string \<Rightarrow> link \<Rightarrow> bool" where
  "link_filter s opts baseDomain l =
     (let u = toLowerCase (link_url l);
          text = toLowerCase (link_text l @ '' '' @ link_parentText l);
          domain = hostname s (link_url l)
      in if sameDomainOnly opts \<and> domain \<noteq> baseDomain then False
         else if list_ex (\<lambda>pattern. js_includes u (toLowerCase pattern)) (excludePatterns opts)
           then False
         else if list_ex (\<lambda>exclude. js_includes text exclude \<and> length text < 50) excludeTexts
           then False
         else if length (link_text l) < 3 \<or> toLowerCase (link_text l) \<in> set genericTexts
           then False
         else if length (filterPatterns opts) > 0
           then list_ex (\<lambda>pattern. js_includes u (toLowerCase pattern) \<or>
                                    js_includes text (toLowerCase pattern)) (filterPatterns opts)
         else hasStoryKeywords opts u text \<or> hasMeaningfulText l \<or> hasChapterNumbers text)"

text \<open>
  \<open>new Map(entries)\<close> sets the entries in order: a key already present keeps its place
  and takes the new value, a new key goes to the end. \<open>values()\<close> lists the values in
  that order.
\<close>

fun map_set :: "('k \<times> 'v) list \<Rightarrow> 'k \<Rightarrow> 'v \<Rightarrow> ('k \<times> 'v) list" where
  "map_set [] k v = [(k, v)]"
| "map_set ((k', v') # m) k v = (if k' = k then (k', v) # m else (k', v') # map_set m k v)"

definition new_Map :: "('k \<times> 'v) list \<Rightarrow> ('k \<times> 'v) list" where
  "new_Map entries = foldl (\<lambda>m (k, v). map_set m k v) [] entries"

definition uniqueLinks :: "link list \<Rightarrow> link list" where
  "uniqueLinks filteredLinks = map snd (new_Map (map (\<lambda>l. (link_url l, l)) filteredLinks))"

text \<open>\<open>xs.slice(0, n)\<close> for an integer \<open>n\<close>: a negative \<open>n\<close> counts from the end.\<close>

definition slice0 :: "int \<Rightarrow> 'a list \<Rightarrow> 'a list" where
  "slice0 n xs = (if n < 0 then take (nat (int (length xs) + n)) xs else take (nat n) xs)"

definition linksToScrape :: "site \<Rightarrow> options \<Rightarrow> string \<Rightarrow> anchor list \<Rightarrow> link list" where
  "linksToScrape s opts pageUrl anchors =
     (let baseDomain = hostname s pageUrl;
          allLinks = collect_links s pageUrl anchors;
          filteredLinks = filter (link_filter s opts baseDomain) allLinks
      in slice0 (maxLinks opts) (uniqueLinks filteredLinks))"

section \<open>The crawl over the links (v2)\<close>

text \<open>
  The entries of \<open>results\<close> are \<open>{ url, status: 'skipped', reason, linkText }\<close> and
  \<open>{ url, status: 'success', story, linkText }\<close>; the entries of \<open>errors\<close> are
  \<open>{ url, error, linkText }\<close>.
\<close>

datatype skip_reason = already_exists | content_too_short

datatype status = Skipped skip_reason | Success story

record outcome =
  oc_url :: string
  oc_status :: status
  oc_linkText :: string

record link_error =
  le_url :: string
  le_error :: string
  le_linkText :: string

record crawl_state =
  cs_world :: world
  cs_results :: "outcome list"
  cs_errors :: "link_error list"

text \<open>
  One turn of the \<open>for\<close> loop. An error thrown by \<open>scrape\<close> is caught and recorded in
  \<open>errors\<close>. The pause after a success is a matter of time only and is not part of the
  state.
\<close>

definition process_link :: "site \<Rightarrow> options \<Rightarrow> crawl_state \<Rightarrow> link \<Rightarrow> crawl_state" where
  "process_link s opts st l =
     (case getStoryByUrl (w_db (cs_world st)) (link_url l) of
        Some existing \<Rightarrow>
          st\<lparr>cs_results := cs_results st @
               [\<lparr>oc_url = link_url l, oc_status = Skipped already_exists,
                 oc_linkText = link_text l\<rparr>]\<rparr>
      | None \<Rightarrow>
          (case scrape s (cs_world st) (link_url l) of
             (Inl err, w') \<Rightarrow>
               st\<lparr>cs_world := w',
                  cs_errors := cs_errors st @
                    [\<lparr>le_url = link_url l, le_error = err, le_linkText = link_text l\<rparr>]\<rparr>
           | (Inr result, w') \<Rightarrow>
               if int (length (st_content result)) < minContentLength opts
               then st\<lparr>cs_world := w'\<lparr>w_db := deleteStoryByUrl (w_db w') (link_url l)\<rparr>,
                       cs_results := cs_results st @
                         [\<lparr>oc_url = link_url l, oc_status = Skipped content_too_short,
                           oc_linkText = link_text l\<rparr>]\<rparr>
               else st\<lparr>cs_world := w',
                       cs_results := cs_results st @
                         [\<lparr>oc_url = link_url l, oc_status = Success result,
                           oc_linkText = link_text l\<rparr>]\<rparr>))"

definition process_links :: "site \<Rightarrow> options \<Rightarrow> world \<Rightarrow> link list \<Rightarrow> crawl_state" where
  "process_links s opts w links =
     foldl (process_link s opts) \<lparr>cs_world = w, cs_results = [], cs_errors = []\<rparr> links"

record summary =
  successful :: nat
  skipped :: nat
  failed :: nat

definition is_success :: "outcome \<Rightarrow> bool" where
  "is_success r = (case oc_status r of Success _ \<Rightarrow> True | Skipped _ \<Rightarrow> False)"

definition is_skipped :: "outcome \<Rightarrow> bool" where
  "is_skipped r = (case oc_status r of Skipped _ \<Rightarrow> True | Success _ \<Rightarrow> False)"

definition summarize :: "crawl_state \<Rightarrow> summary" where
  "summarize st =
     \<lparr>successful = length (filter is_success (cs_results st)),
      skipped = length (filter is_skipped (cs_results st)),
      failed = length (cs_errors st)\<rparr>"

record report =
  rp_pageUrl :: string
  totalLinksFound :: nat
  linksProcessed :: nat
  rp_results :: "outcome list"
  rp_errors :: "link_error list"
  rp_summary :: summary

text \<open>
  \<open>scrapeLinksFromPage\<close>: load the source page, find the links, crawl them. A failure to
  load the source page rejects the whole call.
\<close>

definition scrapeLinksFromPage :: "site \<Rightarrow> world \<Rightarrow> string \<Rightarrow> options \<Rightarrow> (string + report) \<times> world" where
  "scrapeLinksFromPage s w pageUrl opts =
     (let w1 = w\<lparr>w_fetched := w_fetched w @ [pageUrl]\<rparr>
      in case browse s pageUrl of
           Inl err \<Rightarrow> (Inl err, w1)
         | Inr pg \<Rightarrow>
             (let anchors = page_anchors pg (linkSelector opts);
                  allLinks = collect_links s pageUrl anchors;
                  links = linksToScrape s opts pageUrl anchors
              in if length links = 0
                 then (Inr \<lparr>rp_pageUrl = pageUrl, totalLinksFound = length allLinks,
                             linksProcessed = 0, rp_results = [], rp_errors = [],
                             rp_summary = \<lparr>successful = 0, skipped = 0, failed = 0\<rparr>\<rparr>, w1)
                 else (let st = process_links s opts w1 links
                       in (Inr \<lparr>rp_pageUrl = pageUrl, totalLinksFound = length allLinks,
                                 linksProcessed = length links, rp_results = cs_results st,
                                 rp_errors = cs_errors st, rp_summary = summarize st\<rparr>,
                           cs_world st))))"

section \<open>The engine v3\<close>

text \<open>
  \<open>enhanced-scraper-v3.js\<close> has its own extraction, its own \<open>scrape\<close> and the crawl loop
  \<open>batchScrapeFromLinks\<close>. \<open>cleanTitle\<close> is the same function in both engines.
\<close>

text \<open>
  \<open>split_runs sep s\<close> is \<open>s.split(/[\<dots>]+/)\<close> for a character class \<open>sep\<close>: the pieces
  between the maximal runs of characters of the class.
\<close>

function split_runs :: "(char \<Rightarrow> bool) \<Rightarrow> string \<Rightarrow> string list" where
  "split_runs sep s =
     (let piece = takeWhile (\<lambda>c. \<not> sep c) s;
          rest = dropWhile (\<lambda>c. \<not> sep c) s
      in if rest = [] then [piece] else piece # split_runs sep (dropWhile sep rest))"
  by pat_completeness auto
termination
proof (relation "measure (\<lambda>(sep, s). length s)")
  show "wf (measure (\<lambda>(sep, s). length s))" by simp
next
  fix sep :: "char \<Rightarrow> bool" and s piece rest :: string
  assume r: "rest = dropWhile (\<lambda>c. \<not> sep c) s" and ne: "rest \<noteq> []"
  from ne obtain c cs where rc: "rest = c # cs" by (cases rest) auto
  from r ne have ne': "dropWhile (\<lambda>c. \<not> sep c) s \<noteq> []" by simp
  have "sep (hd rest)" unfolding r using hd_dropWhile [OF ne'] by simp
  then have "sep c" using rc by simp
  then have "length (dropWhile sep rest) \<le> length cs"
    using rc by (simp add: length_dropWhile_le)
  moreover have "length rest \<le> length s"
    using r by (simp add: length_dropWhile_le)
  ultimately show "((sep, dropWhile sep rest), (sep, s)) \<in> measure (\<lambda>(sep, s). length s)"
    using rc by simp
qed

declare split_runs.simps [simp del]

text \<open>The class \<open>[.!?]\<close>.\<close>

definition is_sentence_end :: "char \<Rightarrow> bool" where
  "is_sentence_end c = (c \<in> set [CHR ''.'', CHR ''!'', CHR ''?''])"

definition scoreContent :: "string \<Rightarrow> int" where
  "scoreContent text =
     (if text = [] then 0
      else
        (let wordCount = length (split_ws text);
             sentenceCount = length (split_runs is_sentence_end text);
             avgWordsPerSentence = (of_nat wordCount :: rat) / of_nat (max sentenceCount 1);
             score = int wordCount;
             score = (if avgWordsPerSentence > 5 \<and> avgWordsPerSentence < 30
                      then score + 50 else score);
             score = (if wordCount < 50 then score - 100 else score)
         in score))"

definition contentSelectors_v3 :: "string list" where
  "contentSelectors_v3 =
     [''.story-content'', ''.post-content'', ''.entry-content'', ''.article-content'',
      ''.content'', ''article'', ''.main-content'', ''#content'', ''.text'', ''main'']"

text \<open>
  \<open>extractContent\<close> of v3 reads the document after the removal of
  \<open>script, style, nav, header, footer, .sidebar, .menu, .navigation, .ads, .advertisement\<close>.
  It looks at the first element of each selector; the paragraphs are tried when nothing
  was found or the best score is below 100, and replace the content without replacing the
  score.
\<close>

definition extractContent_v3 :: "dom \<Rightarrow> string" where
  "extractContent_v3 d =
     (let best = foldl (\<lambda>best selector.
                    (case d selector of
                       [] \<Rightarrow> best
                     | element # _ \<Rightarrow>
                         (let text = trim (el_text element);
                              score = scoreContent text
                          in if score > snd best then (text, score) else best)))
                  ([], 0 :: int) contentSelectors_v3;
          bestContent = fst best;
          bestScore = snd best;
          bestContent =
            (if bestContent = [] \<or> bestScore < 100
             then (let paragraphs = map (\<lambda>el. trim (el_text el)) (d ''p'');
                       combinedText = join_paragraphs paragraphs
                   in if scoreContent combinedText > bestScore then combinedText
                      else bestContent)
             else bestContent)
      in if bestContent = [] then ''No content found'' else bestContent)"

definition titleSelectors_v3 :: "string list" where
  "titleSelectors_v3 =
     [''h1'', ''.title'', ''.story-title'', ''.post-title'', ''.entry-title'', ''title'',
      ''.headline'', ''.article-title'']"

fun try_titles_v3 :: "dom \<Rightarrow> string list \<Rightarrow> string option" where
  "try_titles_v3 d [] = None"
| "try_titles_v3 d (sel # sels) =
     (case d sel of
        [] \<Rightarrow> try_titles_v3 d sels
      | e # _ \<Rightarrow>
          (let text = trim (el_text e)
           in if text \<noteq> [] then Some (cleanTitle text) else try_titles_v3 d sels))"

definition extractTitle_v3 :: "dom \<Rightarrow> string" where
  "extractTitle_v3 d =
     (case try_titles_v3 d titleSelectors_v3 of
        Some t \<Rightarrow> t
      | None \<Rightarrow>
          (let pageTitle = trim (all_text d ''title'')
           in if pageTitle \<noteq> [] then cleanTitle pageTitle else ''Untitled''))"

text \<open>
  The plain \<open>INSERT\<close> of v3 fails on a url the table holds, since the column is
  \<open>UNIQUE\<close>. The columns \<open>read_count\<close>, \<open>last_read\<close> and \<open>similarity_keywords\<close> are not
  read by the crawl and are left out, and with the last the call of
  \<open>generateSimilarityKeywords\<close>, which computes its value and cannot fail.
\<close>

definition insert_row :: "database \<Rightarrow> string \<Rightarrow> story \<Rightarrow> string + database" where
  "insert_row db u st =
     (if list_ex (\<lambda>r. row_url r = u) (db_rows db)
      then Inl ''SQLITE_CONSTRAINT: UNIQUE constraint failed: stories.url''
      else Inr \<lparr>db_rows = db_rows db @
                  [\<lparr>row_id = Suc (db_seq db), row_url = u, row_title = st_title st,
                    row_content = st_content st, row_author = st_author st,
                    row_word_count = st_wordCount st, row_domain = st_domain st\<rparr>],
                db_seq = Suc (db_seq db)\<rparr>)"

text \<open>
  What \<open>scrape\<close> of v3 returns: \<open>{ skipped: true, reason, story: existingStory }\<close> with
  the id and the title of the stored story, or \<open>{ story, skipped: false }\<close> with
  \<open>story = { id, title, content, author, wordCount, domain, url }\<close>.
\<close>

record story_v3 =
  s3_id :: nat
  s3_title :: string
  s3_content :: string
  s3_author :: "string option"
  s3_wordCount :: nat
  s3_domain :: string
  s3_url :: string

datatype scrape_result = Existing nat string | Scraped story_v3

definition scrape_v3 :: "site \<Rightarrow> world \<Rightarrow> string \<Rightarrow> (string + scrape_result) \<times> world" where
  "scrape_v3 s w u =
     (case getStoryByUrl (w_db w) u of
        Some existingStory \<Rightarrow> (Inr (Existing (row_id existingStory) (row_title existingStory)), w)
      | None \<Rightarrow>
          (let w1 = w\<lparr>w_fetched := w_fetched w @ [u]\<rparr>
           in case browse s u of
                Inl err \<Rightarrow> (Inl err, w1)
              | Inr pg \<Rightarrow>
                  (let title = extractTitle_v3 (page_dom pg);
                       content = extractContent_v3 (page_dom_filtered_v3 pg);
                       author = page_author_v3 pg;
                       domain = hostname s u;
                       wordCount = wordCount_of content
                   in case insert_row (w_db w1) u
                             \<lparr>st_title = title, st_content = content, st_author = author,
                              st_wordCount = wordCount, st_domain = domain\<rparr> of
                        Inl err \<Rightarrow> (Inl err, w1)
                      | Inr db' \<Rightarrow>
                          (Inr (Scraped \<lparr>s3_id = db_seq db', s3_title = title,
                                         s3_content = content, s3_author = author,
                                         s3_wordCount = wordCount, s3_domain = domain,
                                         s3_url = u\<rparr>),
                           w1\<lparr>w_db := db'\<rparr>))))"

text \<open>
  The loop \<open>batchScrapeFromLinks\<close> reads \<open>result.wordCount\<close>. Neither object that
  \<open>scrape\<close> returns has a property of that name (the word count is \<open>result.story.wordCount\<close>),
  so the read gives \<open>undefined\<close>, and \<open>undefined < n\<close> is false for every number \<open>n\<close>.
\<close>

definition result_wordCount :: "scrape_result \<Rightarrow> int option" where
  "result_wordCount result = (case result of Existing _ _ \<Rightarrow> None | Scraped _ \<Rightarrow> None)"

definition js_less :: "int option \<Rightarrow> int \<Rightarrow> bool" where
  "js_less a n = (case a of None \<Rightarrow> False | Some m \<Rightarrow> m < n)"

record batch_options =
  delay :: int
  skipExisting :: bool
  minWordCount :: int

definition default_batch_options :: batch_options where
  "default_batch_options = \<lparr>delay = 2000, skipExisting = True, minWordCount = 100\<rparr>"

record batch_results =
  br_successful :: nat
  br_skipped :: nat
  br_failed :: nat
  br_stories :: "scrape_result list"

record batch_state =
  bs_world :: world
  bs_results :: batch_results

text \<open>One turn of the loop; it reads the url of the link only. The pause between two
  links is a matter of time only.\<close>

definition batch_step :: "site \<Rightarrow> batch_options \<Rightarrow> batch_state \<Rightarrow> link \<Rightarrow> batch_state" where
  "batch_step s opts st l =
     (let results = bs_results st
      in case (if skipExisting opts then getStoryByUrl (w_db (bs_world st)) (link_url l)
               else None) of
           Some existing \<Rightarrow> st\<lparr>bs_results := results\<lparr>br_skipped := br_skipped results + 1\<rparr>\<rparr>
         | None \<Rightarrow>
             (case scrape_v3 s (bs_world st) (link_url l) of
                (Inl err, w') \<Rightarrow>
                  st\<lparr>bs_world := w',
                     bs_results := results\<lparr>br_failed := br_failed results + 1\<rparr>\<rparr>
              | (Inr result, w') \<Rightarrow>
                  if js_less (result_wordCount result) (minWordCount opts)
                  then st\<lparr>bs_world := w',
                          bs_results := results\<lparr>br_skipped := br_skipped results + 1\<rparr>\<rparr>
                  else st\<lparr>bs_world := w',
                          bs_results := results
                            \<lparr>br_successful := br_successful results + 1,
                             br_stories := br_stories results @ [result]\<rparr>\<rparr>))"

definition batchScrapeFromLinks :: "site \<Rightarrow> batch_options \<Rightarrow> world \<Rightarrow> link list \<Rightarrow> batch_state" where
  "batchScrapeFromLinks s opts w links =
     foldl (batch_step s opts)
       \<lparr>bs_world = w,
        bs_results = \<lparr>br_successful = 0, br_skipped = 0, br_failed = 0, br_stories = []\<rparr>\<rparr>
       links"

section \<open>Notions of the specification\<close>

text \<open>
  The first-occurrence order of a list: every element once, at the place where it occurs
  first.
\<close>

fun first_occurrences :: "'a list \<Rightarrow> 'a list" where
  "first_occurrences [] = []"
| "first_occurrences (x # xs) = x # first_occurrences (filter (\<lambda>y. y \<noteq> x) xs)"

text \<open>
  A link survives the domain, exclusion, navigation-text and short-or-generic-text checks:
  none of the first four tests of the filter rejects it.
\<close>

definition survives_checks :: "site \<Rightarrow> options \<Rightarrow> string \<Rightarrow> link \<Rightarrow> bool" where
  "survives_checks s opts baseDomain l =
     (\<not> (sameDomainOnly opts \<and> hostname s (link_url l) \<noteq> baseDomain)
      \<and> \<not> list_ex (\<lambda>pattern. js_includes (toLowerCase (link_url l)) (toLowerCase pattern))
             (excludePatterns opts)
      \<and> \<not> list_ex (\<lambda>exclude.
               js_includes (toLowerCase (link_text l @ '' '' @ link_parentText l)) exclude
               \<and> length (toLowerCase (link_text l @ '' '' @ link_parentText l)) < 50)
             excludeTexts
      \<and> \<not> (length (link_text l) < 3 \<or> toLowerCase (link_text l) \<in> set genericTexts))"


text \<open>
  Three properties of a title used in the proofs about \<open>cleanTitle\<close>: it holds no line
  terminator; it does not end in white space; and every separator in it (hyphen or pipe)
  is its last character.
\<close>

definition noLT :: "string \<Rightarrow> bool" where
  "noLT s = (\<forall>c \<in> set s. \<not> is_lt c)"

definition notrail :: "string \<Rightarrow> bool" where
  "notrail s = (s = [] \<or> \<not> is_ws (last s))"

definition sepfree :: "string \<Rightarrow> bool" where
  "sepfree s = (\<forall>p c r. s = p @ c # r \<longrightarrow> is_sep c \<longrightarrow> r = [])"

text \<open>
  The invariant of the crawl behind the too-short skip: a link recorded as skipped for
  short content has no record in the database, and its page renders to short content.
\<close>

definition too_short_kept_out :: "site \<Rightarrow> options \<Rightarrow> crawl_state \<Rightarrow> bool" where
  "too_short_kept_out s opts st =
     (\<forall>oc \<in> set (cs_results st). oc_status oc = Skipped content_too_short \<longrightarrow>
        getStoryByUrl (w_db (cs_world st)) (oc_url oc) = None
        \<and> (\<exists>pg. browse s (oc_url oc) = Inr pg
              \<and> int (length (extractContent (page_dom_filtered pg))) < minContentLength opts))"

section \<open>Example inputs\<close>

text \<open>A page with nothing in it, and a site that serves it at every address.\<close>

definition blank_page :: page where
  "blank_page = \<lparr>page_dom = (\<lambda>sel. []), page_dom_filtered = (\<lambda>sel. []),
                  page_author = None, page_anchors = (\<lambda>sel. []),
                  page_dom_filtered_v3 = (\<lambda>sel. []), page_author_v3 = None\<rparr>"

definition blank_site :: site where
  "blank_site = \<lparr>browse = (\<lambda>u. Inr blank_page), resolve = (\<lambda>href base. Some href),
                  hostname = (\<lambda>u. ''blank.example'')\<rparr>"

definition fresh_world :: world where
  "fresh_world = \<lparr>w_db = empty_database, w_fetched = []\<rparr>"

text \<open>
  The document of a page whose only heading is \<open><h1 class="story-title">Story:</h1>\<close>:
  the selectors \<open>h1.story-title\<close>, \<open>.story-title\<close> and \<open>h1\<close> match it.
\<close>

definition role_heading :: element where
  "role_heading = \<lparr>el_text = ''Story:'', el_class = Some ''story-title'', el_id = None,
                    el_p_count = 0\<rparr>"

definition role_heading_dom :: dom where
  "role_heading_dom sel =
     (if sel \<in> set [''h1.story-title'', ''.story-title'', ''h1''] then [role_heading] else [])"

text \<open>
  A site for the examples: every \<open>href\<close> is absolute, and the host of an address
  \<open>http://host/path\<close> is what stands between the scheme and the next slash.
\<close>

definition host_of :: "string \<Rightarrow> string" where
  "host_of u = takeWhile (\<lambda>c. c \<noteq> CHR ''/'') (drop 7 u)"

text \<open>
  A page whose only text block is a \<open>div\<close> of 25 letters, 52 spaces and 24 letters (for
  v2 its content is the 50 characters left when the spaces collapse; no content selector of
  v3 matches it), and a page with an article of 2000 letters.
\<close>

definition short_page :: page where
  "short_page =
     \<lparr>page_dom = (\<lambda>sel. []),
      page_dom_filtered = (\<lambda>sel. if sel = ''div, section, article, main''
         then [\<lparr>el_text = replicate 25 (CHR ''a'') @ replicate 52 (CHR '' '') @ replicate 24 (CHR ''b''),
                el_class = None, el_id = None, el_p_count = 0\<rparr>]
         else []),
      page_author = None, page_anchors = (\<lambda>sel. []),
      page_dom_filtered_v3 = (\<lambda>sel. []), page_author_v3 = None\<rparr>"

definition long_page :: page where
  "long_page =
     \<lparr>page_dom = (\<lambda>sel. []),
      page_dom_filtered = (\<lambda>sel. if sel = ''article''
         then [\<lparr>el_text = replicate 2000 (CHR ''x''), el_class = None, el_id = None,
                el_p_count = 0\<rparr>]
         else []),
      page_author = None, page_anchors = (\<lambda>sel. []),
      page_dom_filtered_v3 = (\<lambda>sel. if sel = ''article''
         then [\<lparr>el_text = replicate 2000 (CHR ''x''), el_class = None, el_id = None,
                el_p_count = 0\<rparr>]
         else []),
      page_author_v3 = None\<rparr>"

definition story_site :: site where
  "story_site =
     \<lparr>browse = (\<lambda>u. if u = ''http://site.example/a'' \<or> u = ''http://site.example/b''
                       then Inr short_page
                     else if u = ''http://site.example/c'' then Inr long_page
                     else Inl ''net::ERR_CONNECTION_REFUSED''),
      resolve = (\<lambda>href base. Some href),
      hostname = host_of\<rparr>"

text \<open>A database that holds one story, stored under \<open>http://site.example/a\<close>.\<close>

definition stored_a :: world where
  "stored_a =
     \<lparr>w_db = \<lparr>db_rows = [\<lparr>row_id = 1, row_url = ''http://site.example/a'',
                            row_title = ''A Tale'', row_content = ''Once upon a time'',
                            row_author = None, row_word_count = 4,
                            row_domain = ''site.example''\<rparr>],
              db_seq = 1\<rparr>,
      w_fetched = []\<rparr>"

definition three_links :: "link list" where
  "three_links =
     [\<lparr>link_url = ''http://site.example/a'', link_text = ''Story A'', link_parentText = []\<rparr>,
      \<lparr>link_url = ''http://site.example/b'', link_text = ''Story B'', link_parentText = []\<rparr>,
      \<lparr>link_url = ''http://site.example/c'', link_text = ''Story C'', link_parentText = []\<rparr>]"

text \<open>
  Anchors of a source page \<open>http://site.example/\<close>: two with the same address and
  different texts, one to another host.
\<close>

definition twice_anchors :: "anchor list" where
  "twice_anchors =
     [\<lparr>a_href = Some ''http://site.example/one'', a_text = ''The First Story Title'',
       a_parent_text = ''The First Story Title''\<rparr>,
      \<lparr>a_href = Some ''http://other.example/two'', a_text = ''Another Story Title'',
       a_parent_text = ''Another Story Title''\<rparr>,
      \<lparr>a_href = Some ''http://site.example/one'', a_text = ''The Second Story Title'',
       a_parent_text = ''The Second Story Title''\<rparr>]"

text \<open>A link and options whose one inclusion pattern is written in capitals.\<close>

definition chapter_link :: link where
  "chapter_link = \<lparr>link_url = ''http://site.example/chapter-1'',
                    link_text = ''The Beginning'', link_parentText = ''The Beginning''\<rparr>"

definition capital_pattern_options :: options where
  "capital_pattern_options = default_options\<lparr>filterPatterns := [''CHAPTER'']\<rparr>"

text \<open>
  A page with an article of 667 words of two letters, 2000 characters in all, and a site
  that serves it at \<open>http://site.example/c\<close> and the short page at the two other
  addresses.
\<close>

definition wordy_text :: string where
  "wordy_text = concat (replicate 666 ''xx '') @ ''xx''"

definition wordy_page :: page where
  "wordy_page =
     \<lparr>page_dom = (\<lambda>sel. []),
      page_dom_filtered = (\<lambda>sel. if sel = ''article'' \<or> sel = ''div, section, article, main''
         then [\<lparr>el_text = wordy_text, el_class = None, el_id = None, el_p_count = 0\<rparr>]
         else []),
      page_author = None, page_anchors = (\<lambda>sel. []),
      page_dom_filtered_v3 = (\<lambda>sel. if sel = ''article''
         then [\<lparr>el_text = wordy_text, el_class = None, el_id = None, el_p_count = 0\<rparr>]
         else []),
      page_author_v3 = None\<rparr>"

definition wordy_site :: site where
  "wordy_site =
     \<lparr>browse = (\<lambda>u. if u = ''http://site.example/a'' \<or> u = ''http://site.example/b''
                       then Inr short_page
                     else if u = ''http://site.example/c'' then Inr wordy_page
                     else Inl ''net::ERR_CONNECTION_REFUSED''),
      resolve = (\<lambda>href base. Some href),
      hostname = host_of\<rparr>"

section \<open>Word count of a scraped story\<close>

lemma split_ws_Nil: "split_ws [] = [[]]"
  by (simp add: split_ws.simps)

lemma cleanContent_Nil: "cleanContent [] = []"
  by (simp add: cleanContent_def)

lemma concat_no_matches: "concat (map (\<lambda>sel. []) sels) = []"
  by (induction sels) simp_all

lemma extractContent_empty_document: "extractContent (\<lambda>sel. []) = []"
  by (simp add: extractContent_def extractFromParagraphs_def findLargestTextBlock_def
      cleanContent_Nil Let_def concat_no_matches)

text \<open>
  C1. The word count \<open>scrape\<close> stores is the number of white-space-delimited tokens of the
  content, 0 for the empty content. The code computes \<open>content.split(/\s+/).length\<close>,
  which is 1 on the empty string: scraping a page with nothing in it gives the content
  \<open>''\<close> with the word count 1, where the content has no token.
  (\<open>updateExistingRecords\<close> guards the same expression with \<open>record.content ? \<dots> : 0\<close>.)
\<close>

theorem scrape_blank_page_wordCount:
  "fst (scrape blank_site fresh_world ''http://blank.example/'') =
     Inr \<lparr>st_title = ''Untitled Story'', st_content = [], st_author = None,
          st_wordCount = 1, st_domain = ''blank.example''\<rparr>
   \<and> count_tokens [] = 0"
  by code_simp

section \<open>The extracted title\<close>

text \<open>
  C7. The title \<open>extractTitle\<close> returns is never empty. In the selector and heading
  branches the length test is made on the text before \<open>cleanTitle\<close>, and the cleaned text
  is returned unchecked; only the \<open>title\<close> branch tests the cleaned text. For the heading
  \<open>Story:\<close> the cleaning leaves nothing, and the empty string is returned.
\<close>

theorem extractTitle_role_heading_empty:
  "extractTitle role_heading_dom = []"
  by code_simp

section \<open>The score of a content candidate\<close>





section \<open>Link discovery: duplicates, domain and inclusion patterns\<close>

lemma map_set_keys:
  "map fst (map_set m k v) = (if k \<in> set (map fst m) then map fst m else map fst m @ [k])"
  by (induction m) force+

lemma map_of_map_set: "map_of (map_set m k v) = (map_of m)(k \<mapsto> v)"
  by (induction m) (auto simp: fun_eq_iff)

lemma distinct_map_set: "distinct (map fst m) \<Longrightarrow> distinct (map fst (map_set m k v))"
  by (simp add: map_set_keys)

lemma set_first_occurrences: "set (first_occurrences xs) = set xs"
  by (induction xs rule: first_occurrences.induct) auto

lemma distinct_first_occurrences: "distinct (first_occurrences xs)"
  by (induction xs rule: first_occurrences.induct) (auto simp: set_first_occurrences)

lemma keys_foldl_map_set:
  "distinct (map fst m) \<Longrightarrow>
   map fst (foldl (\<lambda>m (k, v). map_set m k v) m es) =
     map fst m @ first_occurrences (filter (\<lambda>k. k \<notin> set (map fst m)) (map fst es))"
proof (induction es arbitrary: m)
  case Nil
  then show ?case by simp
next
  case (Cons e es)
  obtain k v where e: "e = (k, v)" by (cases e)
  show ?case
  proof (cases "k \<in> set (map fst m)")
    case True
    then have keys: "map fst (map_set m k v) = map fst m" by (simp add: map_set_keys)
    have "distinct (map fst (map_set m k v))" using Cons.prems by (rule distinct_map_set)
    from Cons.IH [OF this] show ?thesis using True e keys by simp
  next
    case False
    then have keys: "map fst (map_set m k v) = map fst m @ [k]" by (simp add: map_set_keys)
    have d: "distinct (map fst (map_set m k v))" using Cons.prems by (rule distinct_map_set)
    have f: "filter (\<lambda>k'. k' \<notin> set (map fst m @ [k])) (map fst es) =
             filter (\<lambda>y. y \<noteq> k) (filter (\<lambda>k'. k' \<notin> set (map fst m)) (map fst es))"
      by (auto intro: filter_cong)
    from Cons.IH [OF d] show ?thesis using False e keys f by simp
  qed
qed

lemma keys_new_Map: "map fst (new_Map es) = first_occurrences (map fst es)"
  using keys_foldl_map_set [of "[]" es] by (simp add: new_Map_def)

lemma map_of_foldl_map_set:
  "map_of (foldl (\<lambda>m (k, v). map_set m k v) m es) = map_of m ++ map_of (rev es)"
proof (induction es arbitrary: m)
  case Nil
  then show ?case by simp
next
  case (Cons e es)
  obtain k v where e: "e = (k, v)" by (cases e)
  have step: "map_of (map_set m k v) ++ map_of (rev es) =
      map_of m ++ ([k \<mapsto> v] ++ map_of (rev es))"
    by (auto simp: map_of_map_set fun_eq_iff map_add_def split: option.splits)
  have "map_of (foldl (\<lambda>m (k, v). map_set m k v) (map_set m k v) es) =
      map_of (map_set m k v) ++ map_of (rev es)"
    by (rule Cons.IH)
  also note step
  finally show ?case using e by simp
qed

lemma map_of_new_Map: "map_of (new_Map es) = map_of (rev es)"
  by (simp add: new_Map_def map_of_foldl_map_set)

lemma map_of_rev_keyed:
  "map_of (rev (map (\<lambda>x. (f x, x)) xs)) k =
     (if filter (\<lambda>x. f x = k) xs = [] then None else Some (last (filter (\<lambda>x. f x = k) xs)))"
  by (induction xs) (auto simp: map_add_def split: option.splits)

lemma uniqueLinks_urls:
  "map link_url (uniqueLinks ls) = first_occurrences (map link_url ls)"
proof -
  let ?es = "map (\<lambda>l. (link_url l, l)) ls"
  have key: "\<And>k v. (k, v) \<in> set (new_Map ?es) \<Longrightarrow> k = link_url v"
  proof -
    fix k v assume kv: "(k, v) \<in> set (new_Map ?es)"
    have "distinct (map fst (new_Map ?es))"
      by (simp add: keys_new_Map distinct_first_occurrences)
    with kv have "map_of (new_Map ?es) k = Some v" by simp
    then have "map_of (rev ?es) k = Some v" by (simp add: map_of_new_Map)
    then have "(k, v) \<in> set (rev ?es)" by (rule map_of_SomeD)
    then show "k = link_url v" by auto
  qed
  have "map link_url (map snd (new_Map ?es)) = map fst (new_Map ?es)"
    using key by (auto simp: map_eq_conv)
  then show ?thesis
    by (simp add: uniqueLinks_def keys_new_Map comp_def)
qed

lemma uniqueLinks_last:
  assumes "l \<in> set (uniqueLinks ls)"
  shows "l = last (filter (\<lambda>x. link_url x = link_url l) ls)"
proof -
  let ?es = "map (\<lambda>l. (link_url l, l)) ls"
  from assms obtain k where kv: "(k, l) \<in> set (new_Map ?es)"
    by (auto simp: uniqueLinks_def)
  have "distinct (map fst (new_Map ?es))"
    by (simp add: keys_new_Map distinct_first_occurrences)
  with kv have "map_of (new_Map ?es) k = Some l" by simp
  then have m: "map_of (rev ?es) k = Some l" by (simp add: map_of_new_Map)
  then have "(k, l) \<in> set (rev ?es)" by (rule map_of_SomeD)
  then have k: "k = link_url l" by auto
  from m show ?thesis unfolding k map_of_rev_keyed by (simp split: if_splits)
qed

lemma set_uniqueLinks: "set (uniqueLinks ls) \<subseteq> set ls"
proof
  fix l assume a: "l \<in> set (uniqueLinks ls)"
  from uniqueLinks_last [OF a] have e: "l = last (filter (\<lambda>x. link_url x = link_url l) ls)" .
  have "filter (\<lambda>x. link_url x = link_url l) ls \<noteq> []"
  proof
    assume "filter (\<lambda>x. link_url x = link_url l) ls = []"
    then have "first_occurrences (map link_url ls) = first_occurrences (map link_url ls)" by simp
    have "link_url l \<in> set (map link_url (uniqueLinks ls))" using a by simp
    then have "link_url l \<in> set (map link_url ls)"
      by (simp only: uniqueLinks_urls set_first_occurrences)
    then obtain x where "x \<in> set ls" "link_url x = link_url l" by auto
    then have "x \<in> set (filter (\<lambda>x. link_url x = link_url l) ls)" by simp
    with \<open>filter (\<lambda>x. link_url x = link_url l) ls = []\<close> show False by simp
  qed
  then have "last (filter (\<lambda>x. link_url x = link_url l) ls) \<in> set (filter (\<lambda>x. link_url x = link_url l) ls)"
    by (rule last_in_set)
  with e show "l \<in> set ls" by auto
qed

lemma slice0_take: "\<exists>n. slice0 k xs = take n xs"
  by (auto simp: slice0_def)

lemma map_slice0: "map f (slice0 k xs) = slice0 k (map f xs)"
  by (simp add: slice0_def take_map)

lemma set_slice0: "set (slice0 k xs) \<subseteq> set xs"
  by (auto simp: slice0_def dest: in_set_takeD)

lemma distinct_slice0: "distinct xs \<Longrightarrow> distinct (slice0 k xs)"
  by (simp add: slice0_def)


lemma link_filter_domain:
  "link_filter s opts baseDomain l \<Longrightarrow> sameDomainOnly opts \<Longrightarrow>
     hostname s (link_url l) = baseDomain"
  by (auto simp: link_filter_def Let_def split: if_splits)

lemma set_linksToScrape:
  "set (linksToScrape s opts pageUrl anchors) \<subseteq>
     set (filter (link_filter s opts (hostname s pageUrl)) (collect_links s pageUrl anchors))"
  unfolding linksToScrape_def Let_def
  using set_slice0 set_uniqueLinks by (rule subset_trans)

text \<open>
  C3, as the code has it. The links returned have pairwise different addresses; the
  addresses stand in the order of their first occurrence among the links that pass the
  filter, cut to \<open>maxLinks\<close>; and the entry kept for an address is the last link with
  that address that passes the filter (\<open>new Map\<close> overwrites the value of a key it
  already holds).
\<close>

theorem linksToScrape_dedup:
  "let filteredLinks = filter (link_filter s opts (hostname s pageUrl))
                         (collect_links s pageUrl anchors);
       result = linksToScrape s opts pageUrl anchors
   in distinct (map link_url result)
      \<and> map link_url result =
          slice0 (maxLinks opts) (first_occurrences (map link_url filteredLinks))
      \<and> (\<forall>l \<in> set result. l = last (filter (\<lambda>x. link_url x = link_url l) filteredLinks))"
proof -
  define fl where "fl = filter (link_filter s opts (hostname s pageUrl))
                         (collect_links s pageUrl anchors)"
  have res: "linksToScrape s opts pageUrl anchors = slice0 (maxLinks opts) (uniqueLinks fl)"
    by (simp add: linksToScrape_def fl_def)
  have urls: "map link_url (linksToScrape s opts pageUrl anchors) =
      slice0 (maxLinks opts) (first_occurrences (map link_url fl))"
    by (simp add: res map_slice0 uniqueLinks_urls)
  have d: "distinct (map link_url (linksToScrape s opts pageUrl anchors))"
    unfolding urls by (intro distinct_slice0 distinct_first_occurrences)
  have kept: "\<forall>l \<in> set (linksToScrape s opts pageUrl anchors).
      l = last (filter (\<lambda>x. link_url x = link_url l) fl)"
  proof
    fix l assume "l \<in> set (linksToScrape s opts pageUrl anchors)"
    then have "l \<in> set (uniqueLinks fl)" using set_slice0 res by fastforce
    then show "l = last (filter (\<lambda>x. link_url x = link_url l) fl)" by (rule uniqueLinks_last)
  qed
  show ?thesis using d urls kept unfolding fl_def Let_def by blast
qed

text \<open>The statement at a scan with the same address twice.\<close>

theorem linksToScrape_dedup_witness:
  "map link_text (linksToScrape story_site default_options ''http://site.example/'' twice_anchors)
     = [''The Second Story Title'']
   \<and> distinct (map link_url
        (linksToScrape story_site default_options ''http://site.example/'' twice_anchors))"
  using linksToScrape_dedup [of story_site default_options "''http://site.example/''" twice_anchors]
  by code_simp

text \<open>
  C3 as stated fails: of two scanned links with the address \<open>http://site.example/one\<close>,
  the first with the text \<open>The First Story Title\<close>, the returned entry carries the
  text of the second.
\<close>

theorem first_seen_counterexample:
  "map link_url (collect_links story_site ''http://site.example/'' twice_anchors) =
     [''http://site.example/one'', ''http://other.example/two'', ''http://site.example/one'']
   \<and> map link_text (collect_links story_site ''http://site.example/'' twice_anchors) =
     [''The First Story Title'', ''Another Story Title'', ''The Second Story Title'']
   \<and> linksToScrape story_site default_options ''http://site.example/'' twice_anchors =
     [\<lparr>link_url = ''http://site.example/one'', link_text = ''The Second Story Title'',
       link_parentText = ''The Second Story Title''\<rparr>]"
  by code_simp

text \<open>
  C4. With \<open>sameDomainOnly\<close> set, every link returned has the host of the source page.
\<close>

theorem sameDomainOnly_links:
  assumes "sameDomainOnly opts"
  shows "\<forall>l \<in> set (linksToScrape s opts pageUrl anchors).
           hostname s (link_url l) = hostname s pageUrl"
proof
  fix l assume "l \<in> set (linksToScrape s opts pageUrl anchors)"
  with set_linksToScrape have "link_filter s opts (hostname s pageUrl) l" by fastforce
  then show "hostname s (link_url l) = hostname s pageUrl"
    using assms by (rule link_filter_domain)
qed

text \<open>The statement at a scan that holds a link to another host.\<close>

theorem sameDomainOnly_links_witness:
  "sameDomainOnly default_options
   \<and> map (\<lambda>l. hostname story_site (link_url l))
        (linksToScrape story_site default_options ''http://site.example/'' twice_anchors)
      = [hostname story_site ''http://site.example/'']"
  using sameDomainOnly_links [of default_options story_site "''http://site.example/''" twice_anchors]
  by code_simp

text \<open>
  C9, as the code has it. With a non-empty \<open>filterPatterns\<close>, a link that survives the
  four checks is included exactly when some pattern, in lower case, occurs in the address
  in lower case or in the combined text in lower case; the heuristics of the last step
  do not enter.
\<close>

theorem filterPatterns_allowlist:
  assumes "filterPatterns opts \<noteq> []" and "survives_checks s opts baseDomain l"
  shows "link_filter s opts baseDomain l \<longleftrightarrow>
           list_ex (\<lambda>pattern.
               js_includes (toLowerCase (link_url l)) (toLowerCase pattern) \<or>
               js_includes (toLowerCase (link_text l @ '' '' @ link_parentText l))
                 (toLowerCase pattern))
             (filterPatterns opts)"
proof -
  from assms(2) have
    c1: "\<not> (sameDomainOnly opts \<and> hostname s (link_url l) \<noteq> baseDomain)" and
    c2: "\<not> list_ex (\<lambda>pattern. js_includes (toLowerCase (link_url l)) (toLowerCase pattern))
             (excludePatterns opts)" and
    c3: "\<not> list_ex (\<lambda>exclude.
               js_includes (toLowerCase (link_text l @ '' '' @ link_parentText l)) exclude
               \<and> length (toLowerCase (link_text l @ '' '' @ link_parentText l)) < 50)
             excludeTexts" and
    c4: "\<not> (length (link_text l) < 3 \<or> toLowerCase (link_text l) \<in> set genericTexts)"
    unfolding survives_checks_def by blast+
  from assms(1) have c5: "length (filterPatterns opts) > 0" by simp
  show ?thesis
    unfolding link_filter_def Let_def
    by (simp only: c1 c2 c3 c4 c5 if_False if_True)
qed

text \<open>The statement at a pattern written in capitals.\<close>

theorem filterPatterns_allowlist_witness:
  "filterPatterns capital_pattern_options \<noteq> []
   \<and> survives_checks story_site capital_pattern_options ''site.example'' chapter_link
   \<and> link_filter story_site capital_pattern_options ''site.example'' chapter_link
   \<and> js_includes (toLowerCase (link_url chapter_link)) (toLowerCase ''CHAPTER'')"
  using filterPatterns_allowlist [of capital_pattern_options story_site "''site.example''" chapter_link]
  by code_simp

text \<open>
  C9 as stated fails: the pattern \<open>CHAPTER\<close> occurs neither in the address nor in the
  combined text of the link, and the link is included.
\<close>

theorem pattern_case_counterexample:
  "filterPatterns capital_pattern_options = [''CHAPTER'']
   \<and> survives_checks story_site capital_pattern_options ''site.example'' chapter_link
   \<and> link_filter story_site capital_pattern_options ''site.example'' chapter_link
   \<and> \<not> js_includes (link_url chapter_link) ''CHAPTER''
   \<and> \<not> js_includes (link_text chapter_link @ '' '' @ link_parentText chapter_link) ''CHAPTER''"
  by code_simp

section \<open>The content of the example pages\<close>

lemma replicate_pos: "0 < n \<Longrightarrow> replicate n x = x # replicate (n - 1) x"
  by (cases n) simp_all

lemma not_ws_x: "\<not> is_ws (CHR ''x'')"
  by (simp add: is_ws_def)

lemma trim_xs: "trim (replicate n (CHR ''x'')) = replicate n (CHR ''x'')"
proof -
  have d: "dropWhile is_ws (replicate n (CHR ''x'')) = replicate n (CHR ''x'')"
    by (cases n) (simp_all add: not_ws_x)
  show ?thesis by (simp add: trim_def d not_ws_x)
qed

lemma collapse_ws_xs: "collapse_ws (replicate n (CHR ''x'')) = replicate n (CHR ''x'')"
  by (induction n) (simp_all add: not_ws_x)

lemma lower_x: "lower_char (CHR ''x'') = CHR ''x''"
  by (simp add: lower_char_def)

lemma first_alternative_x:
  "\<forall>a \<in> set alts. a \<noteq> [] \<and> hd a \<noteq> CHR ''x'' \<Longrightarrow>
     first_alternative alts (CHR ''x'' # r) = None"
proof (induction alts)
  case Nil
  then show ?case by (simp add: first_alternative_def)
next
  case (Cons a alts)
  then obtain p ps where a: "a = p # ps" and p: "p \<noteq> CHR ''x''" by (cases a) auto
  from Cons have "first_alternative alts (CHR ''x'' # r) = None" by simp
  then show ?case using a p by (simp add: first_alternative_def lower_x)
qed

lemma first_alternative_Nil:
  "\<forall>a \<in> set alts. a \<noteq> [] \<Longrightarrow> first_alternative alts [] = None"
proof (induction alts)
  case Nil
  then show ?case by (simp add: first_alternative_def)
next
  case (Cons a alts)
  then obtain p ps where a: "a = p # ps" by (cases a) auto
  from Cons have "first_alternative alts [] = None" by simp
  then show ?case using a by (simp add: first_alternative_def)
qed

lemma remove_prefix_ci_xs:
  assumes "\<forall>a \<in> set alts. a \<noteq> [] \<and> hd a \<noteq> CHR ''x''"
  shows "remove_prefix_ci alts (replicate n (CHR ''x'')) = replicate n (CHR ''x'')"
proof (cases n)
  case 0
  from assms have "first_alternative alts [] = None" by (intro first_alternative_Nil) simp
  then show ?thesis using 0 by (simp add: remove_prefix_ci_def)
next
  case (Suc m)
  then show ?thesis using first_alternative_x [OF assms] by (simp add: remove_prefix_ci_def)
qed

lemma remove_first_ci_xs:
  assumes "\<forall>a \<in> set alts. a \<noteq> [] \<and> hd a \<noteq> CHR ''x''"
  shows "remove_first_ci alts (replicate n (CHR ''x'')) = replicate n (CHR ''x'')"
  by (induction n) (simp_all add: first_alternative_x [OF assms])

lemma cleanContent_xs: "cleanContent (replicate n (CHR ''x'')) = replicate n (CHR ''x'')"
proof (cases n)
  case 0
  then show ?thesis by (simp add: cleanContent_def)
next
  case (Suc m)
  have p1: "remove_prefix_ci [''home'', ''back to top'', ''skip to content'', ''menu'', ''navigation'']
              (replicate n (CHR ''x'')) = replicate n (CHR ''x'')"
    by (rule remove_prefix_ci_xs) simp
  have p2: "remove_first_ci [''copyright'', ''all rights reserved'', [CHR 0xA9]]
              (replicate n (CHR ''x'')) = replicate n (CHR ''x'')"
    by (rule remove_first_ci_xs) simp
  have p3: "remove_prefix_ci [''share'', ''like'', ''tweet'', ''pin'']
              (replicate n (CHR ''x'')) = replicate n (CHR ''x'')"
    by (rule remove_prefix_ci_xs) simp
  show ?thesis
    unfolding cleanContent_def Let_def collapse_ws_xs trim_xs p1 p2 p3
    using Suc by simp
qed

lemma split_lines_xs: "split_lines (replicate n (CHR ''x'')) = [replicate n (CHR ''x'')]"
  by (induction n) simp_all

lemma nonempty_lines_xs:
  "0 < n \<Longrightarrow> nonempty_lines (replicate n (CHR ''x'')) = [replicate n (CHR ''x'')]"
  by (simp add: nonempty_lines_def split_lines_xs trim_xs)

lemma js_includes_Nil: "js_includes [] p = (p = [])"
  by simp

lemma score_xs:
  assumes "30 \<le> n" and "el_class el = None"
  shows "scoreContentElement el (replicate n (CHR ''x'')) = int n + int (el_p_count el) * 50"
proof -
  have "avgLineLength (replicate n (CHR ''x'')) = of_nat n"
    using assms(1) by (simp add: avgLineLength_def nonempty_lines_xs)
  moreover have "\<not> (of_nat n :: rat) < 30" using assms(1) by simp
  ultimately show ?thesis
    using assms(2)
    by (simp add: scoreContentElement_def Let_def attr_or_empty_def storyKeywords_class_def
        navKeywords_def)
qed

lemma long_page_content: "extractContent (page_dom_filtered long_page) = replicate 2000 (CHR ''x'')"
proof -
  let ?el = "\<lparr>el_text = replicate 2000 (CHR ''x''), el_class = None, el_id = None, el_p_count = 0\<rparr>"
  have els: "concat (map (page_dom_filtered long_page) contentSelectors) = [?el]"
    by (simp add: long_page_def contentSelectors_def)
  have sc: "scoreContentElement ?el (replicate 2000 (CHR ''x'')) = 2000"
    using score_xs [of 2000 ?el] by simp
  show ?thesis
    unfolding extractContent_def els
    by (simp add: trim_xs sc cleanContent_xs Let_def)
qed

lemma short_page_content: "length (extractContent (page_dom_filtered short_page)) = 50"
  by code_simp

section \<open>The crawl over three links\<close>

lemma find_filter_other:
  "u' \<noteq> u \<Longrightarrow> find (\<lambda>r. row_url r = u') (filter (\<lambda>r. row_url r \<noteq> u) rows) =
     find (\<lambda>r. row_url r = u') rows"
  by (induction rows) auto

lemma find_filter_same: "find (\<lambda>r. row_url r = u) (filter (\<lambda>r. row_url r \<noteq> u) rows) = None"
  by (induction rows) auto

lemma find_append:
  "find P (xs @ ys) = (case find P xs of None \<Rightarrow> find P ys | Some x \<Rightarrow> Some x)"
  by (induction xs) auto

lemma getStoryByUrl_delete:
  "getStoryByUrl (deleteStoryByUrl db u) u' = (if u' = u then None else getStoryByUrl db u')"
  by (simp add: getStoryByUrl_def deleteStoryByUrl_def find_filter_other find_filter_same)

lemma getStoryByUrl_insert_other:
  "u' \<noteq> u \<Longrightarrow> getStoryByUrl (insert_or_replace db u st) u' = getStoryByUrl db u'"
  by (simp add: getStoryByUrl_def insert_or_replace_def find_append find_filter_other
      split: option.splits)

lemma getStoryByUrl_insert_same:
  "getStoryByUrl (insert_or_replace db u st) u \<noteq> None"
  by (simp add: getStoryByUrl_def insert_or_replace_def find_append find_filter_same)

text \<open>The story \<open>scrape\<close> builds from a rendered page.\<close>

lemma scrape_page:
  "browse s u = Inr pg \<Longrightarrow>
   scrape s w u =
     (Inr \<lparr>st_title = extractTitle (page_dom pg),
           st_content = extractContent (page_dom_filtered pg),
           st_author = page_author pg,
           st_wordCount = wordCount_of (extractContent (page_dom_filtered pg)),
           st_domain = hostname s u\<rparr>,
      \<lparr>w_db = insert_or_replace (w_db w) u
          \<lparr>st_title = extractTitle (page_dom pg),
           st_content = extractContent (page_dom_filtered pg),
           st_author = page_author pg,
           st_wordCount = wordCount_of (extractContent (page_dom_filtered pg)),
           st_domain = hostname s u\<rparr>,
       w_fetched = w_fetched w @ [u]\<rparr>)"
  by (simp add: scrape_def Let_def)

lemma scrape_error:
  "browse s u = Inl err \<Longrightarrow> scrape s w u = (Inl err, w\<lparr>w_fetched := w_fetched w @ [u]\<rparr>)"
  by (simp add: scrape_def Let_def)

lemma process_link_existing:
  "getStoryByUrl (w_db (cs_world st)) (link_url l) = Some r \<Longrightarrow>
   process_link s opts st l =
     st\<lparr>cs_results := cs_results st @
          [\<lparr>oc_url = link_url l, oc_status = Skipped already_exists, oc_linkText = link_text l\<rparr>]\<rparr>"
  by (simp add: process_link_def)

lemma process_link_error:
  "getStoryByUrl (w_db (cs_world st)) (link_url l) = None \<Longrightarrow> browse s (link_url l) = Inl err \<Longrightarrow>
   process_link s opts st l =
     st\<lparr>cs_world := (cs_world st)\<lparr>w_fetched := w_fetched (cs_world st) @ [link_url l]\<rparr>,
        cs_errors := cs_errors st @
          [\<lparr>le_url = link_url l, le_error = err, le_linkText = link_text l\<rparr>]\<rparr>"
  by (simp add: process_link_def scrape_error)

lemma process_link_too_short:
  "getStoryByUrl (w_db (cs_world st)) (link_url l) = None \<Longrightarrow> browse s (link_url l) = Inr pg \<Longrightarrow>
   int (length (extractContent (page_dom_filtered pg))) < minContentLength opts \<Longrightarrow>
   process_link s opts st l =
     st\<lparr>cs_world :=
          \<lparr>w_db = deleteStoryByUrl (insert_or_replace (w_db (cs_world st)) (link_url l)
                    \<lparr>st_title = extractTitle (page_dom pg),
                     st_content = extractContent (page_dom_filtered pg),
                     st_author = page_author pg,
                     st_wordCount = wordCount_of (extractContent (page_dom_filtered pg)),
                     st_domain = hostname s (link_url l)\<rparr>) (link_url l),
           w_fetched = w_fetched (cs_world st) @ [link_url l]\<rparr>,
        cs_results := cs_results st @
          [\<lparr>oc_url = link_url l, oc_status = Skipped content_too_short,
            oc_linkText = link_text l\<rparr>]\<rparr>"
  by (simp add: process_link_def scrape_page)

lemma process_link_success:
  "getStoryByUrl (w_db (cs_world st)) (link_url l) = None \<Longrightarrow> browse s (link_url l) = Inr pg \<Longrightarrow>
   \<not> int (length (extractContent (page_dom_filtered pg))) < minContentLength opts \<Longrightarrow>
   process_link s opts st l =
     st\<lparr>cs_world :=
          \<lparr>w_db = insert_or_replace (w_db (cs_world st)) (link_url l)
                    \<lparr>st_title = extractTitle (page_dom pg),
                     st_content = extractContent (page_dom_filtered pg),
                     st_author = page_author pg,
                     st_wordCount = wordCount_of (extractContent (page_dom_filtered pg)),
                     st_domain = hostname s (link_url l)\<rparr>,
           w_fetched = w_fetched (cs_world st) @ [link_url l]\<rparr>,
        cs_results := cs_results st @
          [\<lparr>oc_url = link_url l,
            oc_status = Success \<lparr>st_title = extractTitle (page_dom pg),
                     st_content = extractContent (page_dom_filtered pg),
                     st_author = page_author pg,
                     st_wordCount = wordCount_of (extractContent (page_dom_filtered pg)),
                     st_domain = hostname s (link_url l)\<rparr>,
            oc_linkText = link_text l\<rparr>]\<rparr>"
  by (simp add: process_link_def scrape_page)

text \<open>
  The loop of v2 over three links, the first already stored, the second with a content of
  50 characters, the third with a content of 2000 characters, under
  \<open>minContentLength = 500\<close>: one success and two skips, no failure; the outcomes stand in
  the order of the links; and the browser is asked once for the second and once for the
  third page and never for the first.
\<close>

theorem crawl_three_links:
  assumes a: "getStoryByUrl (w_db w) (link_url lA) = Some rowA"
    and b0: "getStoryByUrl (w_db w) (link_url lB) = None"
    and c0: "getStoryByUrl (w_db w) (link_url lC) = None"
    and b1: "browse s (link_url lB) = Inr pgB"
    and b2: "length (extractContent (page_dom_filtered pgB)) = 50"
    and c1: "browse s (link_url lC) = Inr pgC"
    and c2: "length (extractContent (page_dom_filtered pgC)) = 2000"
    and m: "minContentLength opts = 500"
  shows "summarize (process_links s opts w [lA, lB, lC]) =
           \<lparr>successful = 1, skipped = 2, failed = 0\<rparr>
       \<and> map oc_url (cs_results (process_links s opts w [lA, lB, lC])) =
           [link_url lA, link_url lB, link_url lC]
       \<and> map oc_status (cs_results (process_links s opts w [lA, lB, lC])) =
           [Skipped already_exists, Skipped content_too_short,
            Success \<lparr>st_title = extractTitle (page_dom pgC),
                     st_content = extractContent (page_dom_filtered pgC),
                     st_author = page_author pgC,
                     st_wordCount = wordCount_of (extractContent (page_dom_filtered pgC)),
                     st_domain = hostname s (link_url lC)\<rparr>]
       \<and> cs_errors (process_links s opts w [lA, lB, lC]) = []
       \<and> w_fetched (cs_world (process_links s opts w [lA, lB, lC])) =
           w_fetched w @ [link_url lB, link_url lC]"
proof -
  let ?st0 = "\<lparr>cs_world = w, cs_results = [], cs_errors = []\<rparr>"
  define st1 where "st1 = process_link s opts ?st0 lA"
  define st2 where "st2 = process_link s opts st1 lB"
  define st3 where "st3 = process_link s opts st2 lC"
  have run: "process_links s opts w [lA, lB, lC] = st3"
    by (simp add: process_links_def st1_def st2_def st3_def)
  have bc: "link_url lC \<noteq> link_url lB"
    using b1 b2 c1 c2 by auto
  have s1: "st1 = ?st0\<lparr>cs_results :=
      [\<lparr>oc_url = link_url lA, oc_status = Skipped already_exists, oc_linkText = link_text lA\<rparr>]\<rparr>"
    unfolding st1_def using a by (simp add: process_link_existing)
  have short: "int (length (extractContent (page_dom_filtered pgB))) < minContentLength opts"
    using b2 m by simp
  have long: "\<not> int (length (extractContent (page_dom_filtered pgC))) < minContentLength opts"
    using c2 m by simp
  have b0': "getStoryByUrl (w_db (cs_world st1)) (link_url lB) = None"
    using b0 by (simp add: s1)
  note s2 = process_link_too_short [OF b0' b1 short, folded st2_def]
  have c0': "getStoryByUrl (w_db (cs_world st2)) (link_url lC) = None"
    using c0 bc by (simp add: s2 s1 getStoryByUrl_delete getStoryByUrl_insert_other)
  note s3 = process_link_success [OF c0' c1 long, folded st3_def]
  have res: "cs_results st3 =
      [\<lparr>oc_url = link_url lA, oc_status = Skipped already_exists, oc_linkText = link_text lA\<rparr>,
       \<lparr>oc_url = link_url lB, oc_status = Skipped content_too_short, oc_linkText = link_text lB\<rparr>,
       \<lparr>oc_url = link_url lC,
        oc_status = Success \<lparr>st_title = extractTitle (page_dom pgC),
                     st_content = extractContent (page_dom_filtered pgC),
                     st_author = page_author pgC,
                     st_wordCount = wordCount_of (extractContent (page_dom_filtered pgC)),
                     st_domain = hostname s (link_url lC)\<rparr>,
        oc_linkText = link_text lC\<rparr>]"
    by (simp add: s3 s2 s1)
  have err: "cs_errors st3 = []"
    by (simp add: s3 s2 s1)
  have fetched: "w_fetched (cs_world st3) = w_fetched w @ [link_url lB, link_url lC]"
    by (simp add: s3 s2 s1)
  have sum: "summarize st3 = \<lparr>successful = 1, skipped = 2, failed = 0\<rparr>"
    by (simp add: summarize_def res err is_success_def is_skipped_def)
  show ?thesis
    unfolding run using sum res err fetched by simp
qed


text \<open>The crawl of the three example links from the database that holds the first.\<close>

theorem crawl_three_links_witness:
  "summarize (process_links story_site default_options stored_a three_links) =
     \<lparr>successful = 1, skipped = 2, failed = 0\<rparr>
   \<and> map oc_url (cs_results (process_links story_site default_options stored_a three_links)) =
     [''http://site.example/a'', ''http://site.example/b'', ''http://site.example/c'']
   \<and> w_fetched (cs_world (process_links story_site default_options stored_a three_links)) =
     [''http://site.example/b'', ''http://site.example/c'']"
proof -
  let ?lA = "\<lparr>link_url = ''http://site.example/a'', link_text = ''Story A'', link_parentText = []\<rparr>"
  let ?lB = "\<lparr>link_url = ''http://site.example/b'', link_text = ''Story B'', link_parentText = []\<rparr>"
  let ?lC = "\<lparr>link_url = ''http://site.example/c'', link_text = ''Story C'', link_parentText = []\<rparr>"
  have a: "getStoryByUrl (w_db stored_a) (link_url ?lA) =
      Some \<lparr>row_id = 1, row_url = ''http://site.example/a'', row_title = ''A Tale'',
            row_content = ''Once upon a time'', row_author = None, row_word_count = 4,
            row_domain = ''site.example''\<rparr>"
    by (simp add: getStoryByUrl_def stored_a_def)
  have b0: "getStoryByUrl (w_db stored_a) (link_url ?lB) = None"
    by (simp add: getStoryByUrl_def stored_a_def)
  have c0: "getStoryByUrl (w_db stored_a) (link_url ?lC) = None"
    by (simp add: getStoryByUrl_def stored_a_def)
  have b1: "browse story_site (link_url ?lB) = Inr short_page"
    by (simp add: story_site_def)
  have c1: "browse story_site (link_url ?lC) = Inr long_page"
    by (simp add: story_site_def)
  have c2: "length (extractContent (page_dom_filtered long_page)) = 2000"
    by (simp add: long_page_content)
  have m: "minContentLength default_options = 500"
    by (simp add: default_options_def)
  from crawl_three_links [OF a b0 c0 b1 short_page_content c1 c2 m]
  show ?thesis by (simp add: three_links_def stored_a_def)
qed

section \<open>A too-short page leaves no record\<close>

lemma too_short_kept_out_step:
  assumes inv: "too_short_kept_out s opts st"
  shows "too_short_kept_out s opts (process_link s opts st l)"
proof (cases "getStoryByUrl (w_db (cs_world st)) (link_url l)")
  case (Some r)
  show ?thesis
    using inv unfolding process_link_existing [OF Some] too_short_kept_out_def by auto
next
  case None
  show ?thesis
  proof (cases "browse s (link_url l)")
    case (Inl err)
    show ?thesis
      using inv unfolding process_link_error [OF None Inl] too_short_kept_out_def by auto
  next
    case (Inr pg)
    show ?thesis
    proof (cases "int (length (extractContent (page_dom_filtered pg))) < minContentLength opts")
      case True
      show ?thesis
        using inv Inr True
        unfolding process_link_too_short [OF None Inr True] too_short_kept_out_def
        by (auto simp: getStoryByUrl_delete getStoryByUrl_insert_other)
    next
      case False
      have other: "oc_url oc \<noteq> link_url l"
        if "oc \<in> set (cs_results st)" "oc_status oc = Skipped content_too_short" for oc
      proof
        assume e: "oc_url oc = link_url l"
        from inv that obtain pg' where "browse s (oc_url oc) = Inr pg'"
          "int (length (extractContent (page_dom_filtered pg'))) < minContentLength opts"
          unfolding too_short_kept_out_def by blast
        with e Inr False show False by simp
      qed
      show ?thesis
        using inv other
        unfolding process_link_success [OF None Inr False] too_short_kept_out_def
        by (auto simp: getStoryByUrl_insert_other)
    qed
  qed
qed

lemma too_short_kept_out_run:
  "too_short_kept_out s opts st \<Longrightarrow> too_short_kept_out s opts (foldl (process_link s opts) st links)"
  by (induction links arbitrary: st) (simp_all add: too_short_kept_out_step)

text \<open>
  After a crawl of v2, no link whose outcome is the skip for short content has a record in
  the database: the record \<open>scrape\<close> wrote is deleted before the skip is recorded, and no
  later link brings it back. (That a short content gives this outcome is
  \<open>process_link_too_short\<close>.)
\<close>

theorem too_short_leaves_no_record:
  "\<forall>oc \<in> set (cs_results (process_links s opts w links)).
     oc_status oc = Skipped content_too_short \<longrightarrow>
       getStoryByUrl (w_db (cs_world (process_links s opts w links))) (oc_url oc) = None"
proof -
  have "too_short_kept_out s opts \<lparr>cs_world = w, cs_results = [], cs_errors = []\<rparr>"
    by (simp add: too_short_kept_out_def)
  then have "too_short_kept_out s opts (process_links s opts w links)"
    unfolding process_links_def by (rule too_short_kept_out_run)
  then show ?thesis by (simp add: too_short_kept_out_def)
qed

text \<open>The crawl of the link to the short example page.\<close>

theorem too_short_leaves_no_record_witness:
  "map oc_status (cs_results (process_links story_site default_options stored_a
       [\<lparr>link_url = ''http://site.example/b'', link_text = ''Story B'', link_parentText = []\<rparr>]))
     = [Skipped content_too_short]
   \<and> getStoryByUrl (w_db (cs_world (process_links story_site default_options stored_a
       [\<lparr>link_url = ''http://site.example/b'', link_text = ''Story B'', link_parentText = []\<rparr>])))
       ''http://site.example/b'' = None
   \<and> map row_url (db_rows (w_db (cs_world (process_links story_site default_options stored_a
       [\<lparr>link_url = ''http://site.example/b'', link_text = ''Story B'', link_parentText = []\<rparr>]))))
     = [''http://site.example/a'']"
  using too_short_leaves_no_record [of story_site default_options stored_a
       "[\<lparr>link_url = ''http://site.example/b'', link_text = ''Story B'', link_parentText = []\<rparr>]"]
  by code_simp

section \<open>One record for each address\<close>







section \<open>Cleaning a title twice\<close>

lemma is_sep_not_ws: "is_sep c \<Longrightarrow> \<not> is_ws c"
  by (auto simp: is_sep_def is_ws_def)

lemma cut_at_take: "cut_at m s = take (length (cut_at m s)) s"
  by (induction s) auto

lemma cut_at_split: "s = cut_at m s @ drop (length (cut_at m s)) s"
  by (metis append_take_drop_id cut_at_take)

lemma cut_at_rest:
  "drop (length (cut_at m s)) s = [] \<or> m (drop (length (cut_at m s)) s)"
  by (induction s) auto

lemma cut_at_leftmost:
  "cut_at m s = p @ u \<Longrightarrow> u \<noteq> [] \<Longrightarrow> \<not> m (u @ drop (length (cut_at m s)) s)"
proof (induction s arbitrary: p)
  case Nil
  then show ?case by simp
next
  case (Cons c cs)
  show ?case
  proof (cases "m (c # cs)")
    case True
    with Cons.prems show ?thesis by simp
  next
    case False
    then have k: "cut_at m (c # cs) = c # cut_at m cs" by simp
    show ?thesis
    proof (cases p)
      case Nil
      with Cons.prems k have "u = c # cut_at m cs" by simp
      then have "u @ drop (length (cut_at m (c # cs))) (c # cs) = c # cs"
        using k cut_at_split [of cs m] by simp
      with False show ?thesis by simp
    next
      case (Cons a p')
      with Cons.prems k have "cut_at m cs = p' @ u" by simp
      from Cons.IH [OF this Cons.prems(2)] show ?thesis using k by simp
    qed
  qed
qed

lemma cut_at_id:
  assumes "\<And>p u. s = p @ u \<Longrightarrow> u \<noteq> [] \<Longrightarrow> \<not> m u"
  shows "cut_at m s = s"
  using assms
proof (induction s)
  case Nil
  then show ?case by simp
next
  case (Cons c cs)
  have "\<not> m (c # cs)" using Cons.prems [of "[]" "c # cs"] by simp
  moreover have "cut_at m cs = cs"
  proof (rule Cons.IH)
    fix p u assume "cs = p @ u" "u \<noteq> []"
    then show "\<not> m u" using Cons.prems [of "c # p" u] by simp
  qed
  ultimately show ?case by simp
qed


lemma noLT_append: "noLT (p @ u) \<longleftrightarrow> noLT p \<and> noLT u"
  by (auto simp: noLT_def)

lemma noLT_Cons: "noLT (c # u) \<longleftrightarrow> \<not> is_lt c \<and> noLT u"
  by (auto simp: noLT_def)

lemma noLT_dropWhile: "noLT s \<Longrightarrow> noLT (dropWhile P s)"
  by (auto simp: noLT_def dest: set_dropWhileD)

lemma noLT_cut_at: "noLT s \<Longrightarrow> noLT (cut_at m s)"
  by (metis cut_at_split noLT_append)

lemma rest_of_line_nonempty: "rest_of_line r \<Longrightarrow> r \<noteq> []"
  by (auto simp: rest_of_line_def list_ex_iff)

lemma rest_of_line_noLT: "noLT r \<Longrightarrow> r \<noteq> [] \<Longrightarrow> rest_of_line r"
proof -
  assume n: "noLT r" and ne: "r \<noteq> []"
  have "(0::nat) \<in> set [0 ..< Suc (length (takeWhile is_ws r))]" by simp
  moreover have "drop 0 r \<noteq> [] \<and> list_all (\<lambda>c. \<not> is_lt c) (drop 0 r)"
    using n ne by (simp add: noLT_def list_all_iff)
  ultimately show ?thesis unfolding rest_of_line_def list_ex_iff by blast
qed

lemma suffix_after_D:
  "suffix_after sep t \<Longrightarrow> \<exists>c r. dropWhile is_ws t = c # r \<and> sep c \<and> r \<noteq> []"
  by (auto simp: suffix_after_def split: list.splits dest: rest_of_line_nonempty)

lemma suffix_after_I:
  "dropWhile is_ws t = c # r \<Longrightarrow> sep c \<Longrightarrow> r \<noteq> [] \<Longrightarrow> noLT r \<Longrightarrow> suffix_after sep t"
  by (simp add: suffix_after_def rest_of_line_noLT)

lemma qualifier_suffix_D:
  "qualifier_suffix t \<Longrightarrow> \<exists>r. dropWhile is_ws t = CHR ''-'' # r \<and> r \<noteq> []"
  by (auto simp: qualifier_suffix_def toLowerCase_def split: list.splits)

lemma dropWhile_split: "dropWhile P t = c # r \<Longrightarrow> t = takeWhile P t @ c # r"
  by (metis takeWhile_dropWhile_id)

lemma sepfree_cut_at_sep:
  assumes n: "noLT s"
  shows "sepfree (cut_at (suffix_after is_sep) s)"
  unfolding sepfree_def
proof (intro allI impI)
  fix p c q
  let ?k = "cut_at (suffix_after is_sep) s"
  let ?r = "drop (length ?k) s"
  assume k: "?k = p @ c # q" and c: "is_sep c"
  from cut_at_leftmost [OF k] have nm: "\<not> suffix_after is_sep ((c # q) @ ?r)" by simp
  have "s = ?k @ ?r" by (rule cut_at_split)
  with n k have nl: "noLT (q @ ?r)" by (metis noLT_append noLT_Cons)
  have dw: "dropWhile is_ws ((c # q) @ ?r) = c # (q @ ?r)"
    using c by (simp add: is_sep_not_ws)
  show "q = []"
  proof (rule ccontr)
    assume "q \<noteq> []"
    then have "q @ ?r \<noteq> []" by simp
    from suffix_after_I [where sep = is_sep, OF dw c this nl] nm show False by simp
  qed
qed

lemma sepfree_suffix: "sepfree (p @ u) \<Longrightarrow> sepfree u"
  unfolding sepfree_def by (metis append_assoc)

lemma sepfree_prefix: "sepfree (u @ q) \<Longrightarrow> sepfree u"
  unfolding sepfree_def
  by (metis append_Cons append_assoc append_is_Nil_conv)

lemma sepfree_no_sep_match:
  assumes sf: "sepfree s" and sub: "\<And>c. sep c \<Longrightarrow> is_sep c"
  shows "cut_at (suffix_after sep) s = s"
proof (rule cut_at_id)
  fix p u assume s: "s = p @ u" and "u \<noteq> []"
  show "\<not> suffix_after sep u"
  proof
    assume "suffix_after sep u"
    then obtain c r where d: "dropWhile is_ws u = c # r" and c: "sep c" and r: "r \<noteq> []"
      using suffix_after_D by blast
    from dropWhile_split [OF d] s have "s = (p @ takeWhile is_ws u) @ c # r" by simp
    with sf sub [OF c] have "r = []" unfolding sepfree_def by blast
    with r show False by simp
  qed
qed

lemma sepfree_no_qualifier:
  assumes sf: "sepfree s"
  shows "cut_at qualifier_suffix s = s"
proof (rule cut_at_id)
  fix p u assume s: "s = p @ u" and "u \<noteq> []"
  show "\<not> qualifier_suffix u"
  proof
    assume "qualifier_suffix u"
    then obtain r where d: "dropWhile is_ws u = CHR ''-'' # r" and r: "r \<noteq> []"
      using qualifier_suffix_D by blast
    from dropWhile_split [OF d] s have "s = (p @ takeWhile is_ws u) @ CHR ''-'' # r" by simp
    moreover have "is_sep (CHR ''-'')" by (simp add: is_sep_def)
    ultimately have "r = []" using sf unfolding sepfree_def by blast
    with r show False by simp
  qed
qed


lemma notrail_suffix: "notrail (p @ u) \<Longrightarrow> notrail u"
  by (auto simp: notrail_def)

lemma dropWhile_suffix: "\<exists>p. s = p @ dropWhile P s"
  by (metis takeWhile_dropWhile_id)

lemma trim_notrail: "notrail s \<Longrightarrow> trim s = dropWhile is_ws s"
proof (cases "dropWhile is_ws s = []")
  case True
  show ?thesis unfolding trim_def True by simp
next
  case False
  assume nt: "notrail s"
  obtain p where "s = p @ dropWhile is_ws s" using dropWhile_suffix by blast
  with False have "last (dropWhile is_ws s) = last s" by (metis last_appendR)
  moreover from False have "s \<noteq> []" by auto
  ultimately have "\<not> is_ws (last (dropWhile is_ws s))" using nt by (simp add: notrail_def)
  then have "\<not> is_ws (hd (rev (dropWhile is_ws s)))" using False by (simp add: hd_rev)
  then have "dropWhile is_ws (rev (dropWhile is_ws s)) = rev (dropWhile is_ws s)"
    by (simp add: dropWhile_eq_self_iff)
  then show ?thesis by (simp add: trim_def)
qed

lemma trim_sandwich: "\<exists>p q. s = p @ trim s @ q"
proof -
  let ?a = "dropWhile is_ws s"
  have "rev (takeWhile is_ws (rev ?a) @ dropWhile is_ws (rev ?a)) = rev (rev ?a)"
    by (simp only: takeWhile_dropWhile_id)
  then have "rev (dropWhile is_ws (rev ?a)) @ rev (takeWhile is_ws (rev ?a)) = ?a"
    by (simp only: rev_append rev_rev_ident)
  then have "?a = trim s @ rev (takeWhile is_ws (rev ?a))"
    by (simp only: trim_def)
  moreover have "s = takeWhile is_ws s @ ?a" by simp
  ultimately show ?thesis by metis
qed

lemma trim_trim: "trim (trim s) = trim s"
proof -
  let ?a = "dropWhile is_ws s"
  let ?b = "dropWhile is_ws (rev ?a)"
  have t: "trim s = rev ?b" by (simp add: trim_def)
  show ?thesis
  proof (cases "?b = []")
    case True
    show ?thesis unfolding t True by (simp add: trim_def)
  next
    case False
    then have b_hd: "\<not> is_ws (hd ?b)" by (rule hd_dropWhile)
    have ane: "?a \<noteq> []"
    proof
      assume e: "?a = []"
      have "?b = []" unfolding e by simp
      with False show False by blast
    qed
    then have a_hd: "\<not> is_ws (hd ?a)" by (rule hd_dropWhile)
    obtain p where p: "rev ?a = p @ ?b" using dropWhile_suffix by blast
    with False have "last ?b = last (rev ?a)" by (metis last_appendR)
    also have "\<dots> = hd ?a" using ane by (simp add: last_rev)
    finally have "\<not> is_ws (hd (rev ?b))" using a_hd False by (simp add: hd_rev)
    then have 1: "dropWhile is_ws (rev ?b) = rev ?b" by (simp add: dropWhile_eq_self_iff)
    have 2: "dropWhile is_ws ?b = ?b" using b_hd by (simp add: dropWhile_eq_self_iff)
    show ?thesis unfolding t by (simp add: trim_def [of "rev ?b"] 1 2)
  qed
qed

lemma colon_suffix:
  "\<exists>p. r = p @ (case r of [] \<Rightarrow> [] | c # cs \<Rightarrow> if c = CHR '':'' then cs else c # cs)"
  by (cases r) (auto intro: exI [of _ "[]"])

lemma strip_role_suffix: "\<exists>p. s = p @ strip_role s"
proof (cases "first_alternative [''story'', ''chapter'', ''part''] s")
  case None
  then show ?thesis by (simp add: strip_role_def)
next
  case (Some k)
  let ?r = "dropWhile is_ws (drop (length k) s)"
  let ?r' = "case ?r of [] \<Rightarrow> [] | c # cs \<Rightarrow> if c = CHR '':'' then cs else c # cs"
  have sr: "strip_role s = dropWhile is_ws ?r'"
    using Some by (simp add: strip_role_def Let_def)
  obtain p1 where p1: "s = p1 @ drop (length k) s" by (metis append_take_drop_id)
  obtain p2 where p2: "drop (length k) s = p2 @ ?r" using dropWhile_suffix by blast
  have "\<exists>p3. ?r = p3 @ ?r'" by (rule colon_suffix)
  then obtain p3 where p3: "?r = p3 @ ?r'" by blast
  obtain p4 where p4: "?r' = p4 @ dropWhile is_ws ?r'" using dropWhile_suffix by blast
  have "s = (p1 @ p2 @ p3 @ p4) @ strip_role s"
    using p1 p2 p3 p4 sr by (metis append_assoc)
  then show ?thesis by blast
qed

lemma strip_role_id:
  "first_alternative [''story'', ''chapter'', ''part''] s = None \<Longrightarrow> strip_role s = s"
  by (simp add: strip_role_def)

lemma paren_suffix_D:
  "paren_suffix u \<Longrightarrow> \<exists>r. dropWhile is_ws u = CHR ''('' # r \<and> r \<noteq> [] \<and> last r = CHR '')''"
  by (auto simp: paren_suffix_def split: list.splits)

lemma paren_suffix_I:
  "dropWhile is_ws u = CHR ''('' # r \<Longrightarrow> r \<noteq> [] \<Longrightarrow> last r = CHR '')'' \<Longrightarrow> noLT r \<Longrightarrow>
     paren_suffix u"
  by (auto simp: paren_suffix_def noLT_def list_all_iff dest: in_set_butlastD)

lemma paren_suffix_ws: "is_ws w \<Longrightarrow> paren_suffix r \<Longrightarrow> paren_suffix (w # r)"
  by (simp add: paren_suffix_def)

lemma suffix_after_ws: "is_ws w \<Longrightarrow> suffix_after sep r \<Longrightarrow> suffix_after sep (w # r)"
  by (simp add: suffix_after_def)

lemma notrail_cut_at:
  assumes ext: "\<And>w r. is_ws w \<Longrightarrow> m r \<Longrightarrow> m (w # r)" and nt: "notrail s"
  shows "notrail (cut_at m s)"
proof (cases "drop (length (cut_at m s)) s = []")
  case True
  then have "cut_at m s = s" using cut_at_split [of s m] by simp
  with nt show ?thesis by simp
next
  case False
  let ?k = "cut_at m s"
  let ?r = "drop (length ?k) s"
  from False cut_at_rest [of m s] have mr: "m ?r" by blast
  show ?thesis
    unfolding notrail_def
  proof (rule disjCI)
    assume "\<not> \<not> is_ws (last ?k)"
    then have w: "is_ws (last ?k)" by simp
    show "?k = []"
    proof (rule ccontr)
      assume ne: "?k \<noteq> []"
      then have "?k = butlast ?k @ [last ?k]" by simp
      from cut_at_leftmost [OF this] have "\<not> m ([last ?k] @ ?r)" by simp
      with ext [OF w mr] show False by simp
    qed
  qed
qed


lemma paren_free_after:
  assumes n: "noLT x" and nt: "notrail x"
  shows "cut_at paren_suffix (trim (cut_at paren_suffix x)) = trim (cut_at paren_suffix x)"
proof (rule cut_at_id)
  let ?y = "cut_at paren_suffix x"
  let ?r = "drop (length ?y) x"
  fix p u assume c: "trim ?y = p @ u" and ne: "u \<noteq> []"
  have "notrail ?y" using paren_suffix_ws nt by (rule notrail_cut_at)
  then have "trim ?y = dropWhile is_ws ?y" by (rule trim_notrail)
  then obtain p0 where "?y = p0 @ trim ?y" using dropWhile_suffix by metis
  with c have y: "?y = (p0 @ p) @ u" by simp
  from cut_at_leftmost [OF y ne] have nm: "\<not> paren_suffix (u @ ?r)" .
  have x: "x = ?y @ ?r" by (rule cut_at_split)
  show "\<not> paren_suffix u"
  proof
    assume pu: "paren_suffix u"
    show False
    proof (cases "?r = []")
      case True
      with nm pu show False by simp
    next
      case False
      with cut_at_rest [of paren_suffix x] have pr: "paren_suffix ?r" by blast
      from paren_suffix_D [OF pu] obtain r1 where
        du: "dropWhile is_ws u = CHR ''('' # r1" and "r1 \<noteq> []" by blast
      from paren_suffix_D [OF pr] obtain r2 where
        dr: "dropWhile is_ws ?r = CHR ''('' # r2" and r2: "r2 \<noteq> []" "last r2 = CHR '')''"
        by blast
      from dropWhile_split [OF dr] r2 have lr: "last ?r = CHR '')''"
        by (metis last_appendR last_ConsR list.distinct(1))
      from dropWhile_split [OF du] have us: "u = takeWhile is_ws u @ CHR ''('' # r1" .
      then have "CHR ''('' \<in> set u" by (metis in_set_conv_decomp)
      moreover have "\<not> is_ws (CHR ''('')" by (simp add: is_ws_def)
      ultimately have "dropWhile is_ws (u @ ?r) = dropWhile is_ws u @ ?r"
        by (rule dropWhile_append1)
      then have d: "dropWhile is_ws (u @ ?r) = CHR ''('' # (r1 @ ?r)" using du by simp
      have l: "last (r1 @ ?r) = CHR '')''" using False lr by simp
      have "noLT u" "noLT ?r" using n x y by (metis noLT_append)+
      then have "noLT (r1 @ ?r)" using us by (metis noLT_append noLT_Cons)
      moreover have "r1 @ ?r \<noteq> []" using False by simp
      ultimately have "paren_suffix (u @ ?r)" using d l by (intro paren_suffix_I)
      with nm show False by simp
    qed
  qed
qed

lemma cleanTitle_fixed:
  assumes "sepfree c" and "strip_role c = c" and "cut_at paren_suffix c = c" and "trim c = c"
  shows "cleanTitle c = c"
proof -
  have 1: "cut_at (suffix_after is_sep) c = c"
    using assms(1) by (rule sepfree_no_sep_match)
  have 2: "cut_at (suffix_after (\<lambda>c. c = CHR ''|'')) c = c"
    using assms(1) by (rule sepfree_no_sep_match) (simp add: is_sep_def)
  have 4: "cut_at qualifier_suffix c = c"
    using assms(1) by (rule sepfree_no_qualifier)
  show ?thesis
    by (simp add: cleanTitle_def Let_def 1 2 4 assms(2,3,4))
qed

text \<open>
  C2, as the code has it. Cleaning twice gives what cleaning once gives for every title
  that holds no line terminator and does not end in white space, provided the cleaned title
  does not itself begin with one of the role markers \<open>story\<close>, \<open>chapter\<close>, \<open>part\<close>
  (in any case): the marker pattern is applied once, so a second marker is left for the
  next cleaning.
\<close>

theorem cleanTitle_idempotent:
  assumes lt: "\<forall>c \<in> set t. \<not> is_lt c"
    and tr: "t = [] \<or> \<not> is_ws (last t)"
    and role: "first_alternative [''story'', ''chapter'', ''part''] (cleanTitle t) = None"
  shows "cleanTitle (cleanTitle t) = cleanTitle t"
proof (cases "t = []")
  case True
  then show ?thesis by (simp add: cleanTitle_def)
next
  case False
  define t1 where "t1 = cut_at (suffix_after is_sep) t"
  define t3 where "t3 = strip_role t1"
  define t5 where "t5 = cut_at paren_suffix t3"
  have n: "noLT t" using lt by (simp add: noLT_def)
  have nt: "notrail t" using tr by (simp add: notrail_def)
  have sf1: "sepfree t1" unfolding t1_def using n by (rule sepfree_cut_at_sep)
  have n1: "noLT t1" unfolding t1_def using n by (rule noLT_cut_at)
  have nt1: "notrail t1" unfolding t1_def using suffix_after_ws nt by (rule notrail_cut_at)
  have 2: "cut_at (suffix_after (\<lambda>c. c = CHR ''|'')) t1 = t1"
    using sf1 by (rule sepfree_no_sep_match) (simp add: is_sep_def)
  obtain p3 where p3: "t1 = p3 @ t3" unfolding t3_def using strip_role_suffix by blast
  have sf3: "sepfree t3" using sf1 p3 sepfree_suffix by metis
  have n3: "noLT t3" using n1 p3 by (metis noLT_append)
  have nt3: "notrail t3" using nt1 p3 notrail_suffix by metis
  have 4: "cut_at qualifier_suffix t3 = t3" using sf3 by (rule sepfree_no_qualifier)
  have ct: "cleanTitle t = trim t5"
    using False by (simp add: cleanTitle_def Let_def t1_def [symmetric] 2 t3_def [symmetric] 4
        t5_def [symmetric])
  have "t3 = t5 @ drop (length t5) t3" unfolding t5_def by (rule cut_at_split)
  then have sf5: "sepfree t5" using sf3 sepfree_prefix by metis
  obtain p q where "t5 = p @ trim t5 @ q" using trim_sandwich by blast
  then have sfc: "sepfree (trim t5)" using sf5 sepfree_prefix sepfree_suffix by metis
  have pc: "cut_at paren_suffix (trim t5) = trim t5"
    unfolding t5_def using n3 nt3 by (rule paren_free_after)
  have rc: "strip_role (trim t5) = trim t5"
    using role unfolding ct by (rule strip_role_id)
  have "cleanTitle (trim t5) = trim t5"
    using sfc rc pc trim_trim by (rule cleanTitle_fixed)
  then show ?thesis unfolding ct .
qed

text \<open>The statement at the title \<open>Moonlight - Read Online Free\<close>.\<close>

theorem cleanTitle_idempotent_witness:
  "cleanTitle ''Moonlight - Read Online Free'' = ''Moonlight''
   \<and> cleanTitle (cleanTitle ''Moonlight - Read Online Free'') = ''Moonlight''"
  using cleanTitle_idempotent [of "''Moonlight - Read Online Free''"]
  by code_simp

text \<open>
  C2 as stated fails: \<open>Story: Chapter One\<close> is cleaned to \<open>Chapter One\<close>, and that to
  \<open>One\<close>.
\<close>

theorem cleanTitle_twice_counterexample:
  "cleanTitle ''Story: Chapter One'' = ''Chapter One''
   \<and> cleanTitle (cleanTitle ''Story: Chapter One'') = ''One''"
  by code_simp

text \<open>
  The two other conditions are needed as well: a title with a line break, and a title that
  ends in a space, each cleaned to a title that the next cleaning shortens.
\<close>

lemma cleanTitle_line_break_example:
  "cleanTitle (''a-b'' @ [CHR 0x0A] @ ''-c'') = ''a-b'' \<and> cleanTitle ''a-b'' = ''a''"
  by code_simp

lemma cleanTitle_trailing_space_example:
  "cleanTitle ''a (b) '' = ''a (b)'' \<and> cleanTitle ''a (b)'' = ''a''"
  by code_simp

section \<open>The word count of a non-empty content\<close>

text \<open>
  Away from the empty content the stored word count is the token count: the content is
  trimmed, so no piece of the split is empty.
\<close>

lemma count_tokens_word:
  "\<forall>c \<in> set p. \<not> is_ws c \<Longrightarrow>
   count_tokens_from b (p @ r) =
     (if p = [] then count_tokens_from b r else (if b then 1 else 0) + count_tokens_from False r)"
  by (induction p arbitrary: b) auto

lemma count_tokens_gap:
  "\<forall>c \<in> set g. is_ws c \<Longrightarrow> g \<noteq> [] \<Longrightarrow>
   count_tokens_from b (g @ r) = count_tokens_from True r"
proof (induction g arbitrary: b)
  case Nil
  then show ?case by simp
next
  case (Cons c g)
  then show ?case by (cases "g = []") auto
qed

lemma split_ws_length:
  "length (split_ws s) =
     count_tokens_from True s
     + (if s = [] \<or> is_ws (hd s) then 1 else 0)
     + (if s \<noteq> [] \<and> is_ws (last s) then 1 else 0)"
proof (induction s rule: split_ws.induct)
  case (1 s)
  let ?piece = "takeWhile (\<lambda>c. \<not> is_ws c) s"
  let ?rest = "dropWhile (\<lambda>c. \<not> is_ws c) s"
  have word: "\<forall>c \<in> set ?piece. \<not> is_ws c" by (auto dest: set_takeWhileD)
  have s: "s = ?piece @ ?rest" by simp
  show ?case
  proof (cases "?rest = []")
    case True
    have sp: "s = ?piece" by (metis True append_Nil2 takeWhile_dropWhile_id)
    have "split_ws s = [?piece]"
      by (subst split_ws.simps) (simp only: Let_def True if_True refl)
    then have len: "length (split_ws s) = 1" by simp
    show ?thesis
    proof (cases "s = []")
      case True
      then show ?thesis using len by simp
    next
      case False
      then have "\<not> is_ws (hd s)" "\<not> is_ws (last s)" using word sp by (metis hd_in_set last_in_set)+
      moreover have "count_tokens_from True s = 1"
        using count_tokens_word [OF word, of True "[]"] sp False by simp
      ultimately show ?thesis using len False by simp
    qed
  next
    case False
    let ?gap = "takeWhile is_ws ?rest"
    let ?s' = "dropWhile is_ws ?rest"
    have r: "?rest = ?gap @ ?s'" by simp
    have "is_ws (hd ?rest)" using hd_dropWhile [OF False] by simp
    then have gne: "?gap \<noteq> []" using False by (cases ?rest) auto
    have gap: "\<forall>c \<in> set ?gap. is_ws c" by (auto dest: set_takeWhileD)
    have sne: "s \<noteq> []" using False by auto
    have "split_ws s = ?piece # split_ws ?s'"
      by (subst split_ws.simps) (simp only: Let_def False if_False)
    then have len: "length (split_ws s) = 1 + length (split_ws ?s')" by simp
    have ih: "length (split_ws ?s') =
        count_tokens_from True ?s'
        + (if ?s' = [] \<or> is_ws (hd ?s') then 1 else 0)
        + (if ?s' \<noteq> [] \<and> is_ws (last ?s') then 1 else 0)"
      using 1 [OF refl refl False] .
    have hd': "?s' \<noteq> [] \<Longrightarrow> \<not> is_ws (hd ?s')" by (rule hd_dropWhile)
    have ct: "count_tokens_from True s =
        (if ?piece = [] then 0 else 1) + count_tokens_from True ?s'"
    proof -
      have "count_tokens_from True s = count_tokens_from True (?piece @ ?gap @ ?s')"
        by (simp only: takeWhile_dropWhile_id)
      also have "\<dots> = (if ?piece = [] then count_tokens_from True (?gap @ ?s')
                        else 1 + count_tokens_from False (?gap @ ?s'))"
        using count_tokens_word [OF word, of True "?gap @ ?s'"] by simp
      also have "\<dots> = (if ?piece = [] then 0 else 1) + count_tokens_from True ?s'"
        unfolding count_tokens_gap [OF gap gne] by simp
      finally show ?thesis .
    qed
    have hd_s: "is_ws (hd s) \<longleftrightarrow> ?piece = []"
      using sne by (cases s) auto
    have last_s: "is_ws (last s) \<longleftrightarrow> (?s' = [] \<or> is_ws (last ?s'))"
    proof (cases "?s' = []")
      case True
      have "?rest = ?gap" by (metis r True append_Nil2)
      then have "last s = last ?gap" using s gne by (metis last_appendR)
      moreover have "is_ws (last ?gap)" using gap gne last_in_set by blast
      ultimately have "is_ws (last s)" by (simp only:)
      then show ?thesis using True by blast
    next
      case False
      have "last s = last ?s'" using s r False by (metis last_appendR append_is_Nil_conv)
      then show ?thesis using False by (simp only: simp_thms)
    qed
    have A: "(if s = [] \<or> is_ws (hd s) then 1 else 0::nat) = (if ?piece = [] then 1 else 0)"
      using sne hd_s by (simp only: simp_thms)
    have B: "(if s \<noteq> [] \<and> is_ws (last s) then 1 else 0::nat) =
        (if ?s' = [] \<or> is_ws (hd ?s') then 1 else 0)
        + (if ?s' \<noteq> [] \<and> is_ws (last ?s') then 1 else 0)"
    proof (cases "?s' = []")
      case True
      with last_s have "is_ws (last s)" by blast
      then show ?thesis using sne True by (simp only: simp_thms if_True if_False)
    next
      case False
      with hd' have "\<not> is_ws (hd ?s')" by blast
      moreover from False last_s have "is_ws (last s) \<longleftrightarrow> is_ws (last ?s')" by blast
      ultimately show ?thesis using sne False by (simp only: simp_thms if_True if_False)
    qed
    show ?thesis unfolding len ih ct A B by simp
  qed
qed

lemma trim_ends:
  assumes "trim s \<noteq> []"
  shows "\<not> is_ws (hd (trim s)) \<and> \<not> is_ws (last (trim s))"
proof -
  let ?a = "dropWhile is_ws s"
  let ?b = "dropWhile is_ws (rev ?a)"
  have t: "trim s = rev ?b" by (simp add: trim_def)
  with assms have bne: "?b \<noteq> []" by simp
  then have b_hd: "\<not> is_ws (hd ?b)" by (rule hd_dropWhile)
  have ane: "?a \<noteq> []"
  proof
    assume e: "?a = []"
    have "?b = []" unfolding e by simp
    with bne show False by blast
  qed
  then have a_hd: "\<not> is_ws (hd ?a)" by (rule hd_dropWhile)
  obtain p where "rev ?a = p @ ?b" using dropWhile_suffix by blast
  with bne have "last ?b = last (rev ?a)" by (metis last_appendR)
  also have "\<dots> = hd ?a" using ane by (simp add: last_rev)
  finally have "\<not> is_ws (last ?b)" using a_hd by simp
  then show ?thesis unfolding t using bne b_hd by (simp add: hd_rev last_rev)
qed

lemma cleanContent_ends:
  "cleanContent raw \<noteq> [] \<Longrightarrow>
     \<not> is_ws (hd (cleanContent raw)) \<and> \<not> is_ws (last (cleanContent raw))"
  by (cases "raw = []") (simp_all add: cleanContent_def Let_def trim_ends)

lemma wordCount_of_nonempty_content:
  assumes "extractContent d \<noteq> []"
  shows "wordCount_of (extractContent d) = count_tokens (extractContent d)"
proof -
  have e: "\<exists>raw. extractContent d = cleanContent raw"
    unfolding extractContent_def Let_def by blast
  then obtain raw where raw: "extractContent d = cleanContent raw" by blast
  with assms cleanContent_ends [of raw]
  have "\<not> is_ws (hd (extractContent d))" "\<not> is_ws (last (extractContent d))" by simp_all
  then show ?thesis
    using assms by (simp add: wordCount_of_def count_tokens_def split_ws_length)
qed

section \<open>The crawl of the engine v3\<close>

lemma getStoryByUrl_None_iff:
  "getStoryByUrl db u = None \<longleftrightarrow> \<not> list_ex (\<lambda>r. row_url r = u) (db_rows db)"
  by (auto simp: getStoryByUrl_def find_None_iff list_ex_iff)

lemma scrape_v3_page:
  assumes "getStoryByUrl (w_db w) u = None" and "browse s u = Inr pg"
  shows "scrape_v3 s w u =
     (Inr (Scraped \<lparr>s3_id = Suc (db_seq (w_db w)),
                    s3_title = extractTitle_v3 (page_dom pg),
                    s3_content = extractContent_v3 (page_dom_filtered_v3 pg),
                    s3_author = page_author_v3 pg,
                    s3_wordCount = wordCount_of (extractContent_v3 (page_dom_filtered_v3 pg)),
                    s3_domain = hostname s u, s3_url = u\<rparr>),
      \<lparr>w_db = \<lparr>db_rows = db_rows (w_db w) @
                 [\<lparr>row_id = Suc (db_seq (w_db w)), row_url = u,
                   row_title = extractTitle_v3 (page_dom pg),
                   row_content = extractContent_v3 (page_dom_filtered_v3 pg),
                   row_author = page_author_v3 pg,
                   row_word_count = wordCount_of (extractContent_v3 (page_dom_filtered_v3 pg)),
                   row_domain = hostname s u\<rparr>],
               db_seq = Suc (db_seq (w_db w))\<rparr>,
       w_fetched = w_fetched w @ [u]\<rparr>)"
proof -
  from assms(1) have nx: "list_ex (\<lambda>r. row_url r = u) (db_rows (w_db w)) = False"
    by (simp only: getStoryByUrl_None_iff)
  show ?thesis
    unfolding scrape_v3_def insert_row_def Let_def
    by (simp add: assms nx)
qed

lemma batch_step_existing:
  "skipExisting opts \<Longrightarrow> getStoryByUrl (w_db (bs_world st)) (link_url l) = Some r \<Longrightarrow>
   batch_step s opts st l =
     st\<lparr>bs_results := (bs_results st)\<lparr>br_skipped := br_skipped (bs_results st) + 1\<rparr>\<rparr>"
  by (simp add: batch_step_def Let_def)

text \<open>A page that renders is counted as a success whatever \<open>minWordCount\<close> is.\<close>

lemma batch_step_scraped:
  assumes "getStoryByUrl (w_db (bs_world st)) (link_url l) = None"
    and "browse s (link_url l) = Inr pg"
  shows "batch_step s opts st l =
     st\<lparr>bs_world := snd (scrape_v3 s (bs_world st) (link_url l)),
        bs_results := (bs_results st)
          \<lparr>br_successful := br_successful (bs_results st) + 1,
           br_stories := br_stories (bs_results st) @
             [Scraped \<lparr>s3_id = Suc (db_seq (w_db (bs_world st))),
                    s3_title = extractTitle_v3 (page_dom pg),
                    s3_content = extractContent_v3 (page_dom_filtered_v3 pg),
                    s3_author = page_author_v3 pg,
                    s3_wordCount = wordCount_of (extractContent_v3 (page_dom_filtered_v3 pg)),
                    s3_domain = hostname s (link_url l), s3_url = link_url l\<rparr>]\<rparr>\<rparr>"
  using assms(1)
  by (simp add: batch_step_def Let_def scrape_v3_page [OF assms] result_wordCount_def js_less_def)

lemma getStoryByUrl_append_other:
  "row_url r \<noteq> u \<Longrightarrow>
   getStoryByUrl \<lparr>db_rows = rows @ [r], db_seq = n\<rparr> u = getStoryByUrl \<lparr>db_rows = rows, db_seq = m\<rparr> u"
  by (simp add: getStoryByUrl_def find_append split: option.splits)

lemma batch_three_links:
  assumes a: "getStoryByUrl (w_db w) (link_url lA) = Some rowA"
    and b0: "getStoryByUrl (w_db w) (link_url lB) = None"
    and c0: "getStoryByUrl (w_db w) (link_url lC) = None"
    and b1: "browse s (link_url lB) = Inr pgB"
    and c1: "browse s (link_url lC) = Inr pgC"
    and bc: "link_url lB \<noteq> link_url lC"
    and sk: "skipExisting opts"
  shows "br_successful (bs_results (batchScrapeFromLinks s opts w [lA, lB, lC])) = 2
       \<and> br_skipped (bs_results (batchScrapeFromLinks s opts w [lA, lB, lC])) = 1
       \<and> br_failed (bs_results (batchScrapeFromLinks s opts w [lA, lB, lC])) = 0
       \<and> map row_url (db_rows (w_db (bs_world (batchScrapeFromLinks s opts w [lA, lB, lC])))) =
           map row_url (db_rows (w_db w)) @ [link_url lB, link_url lC]
       \<and> w_fetched (bs_world (batchScrapeFromLinks s opts w [lA, lB, lC])) =
           w_fetched w @ [link_url lB, link_url lC]"
proof -
  let ?st0 = "\<lparr>bs_world = w,
        bs_results = \<lparr>br_successful = 0, br_skipped = 0, br_failed = 0, br_stories = []\<rparr>\<rparr>"
  define st1 where "st1 = batch_step s opts ?st0 lA"
  define st2 where "st2 = batch_step s opts st1 lB"
  define st3 where "st3 = batch_step s opts st2 lC"
  have run: "batchScrapeFromLinks s opts w [lA, lB, lC] = st3"
    by (simp add: batchScrapeFromLinks_def st1_def st2_def st3_def)
  have s1: "st1 = ?st0\<lparr>bs_results := (bs_results ?st0)\<lparr>br_skipped := 1\<rparr>\<rparr>"
    unfolding st1_def using a sk by (simp add: batch_step_existing)
  have b0': "getStoryByUrl (w_db (bs_world st1)) (link_url lB) = None"
    using b0 by (simp add: s1)
  note s2 = batch_step_scraped [OF b0' b1, of opts, folded st2_def]
  define W2 where "W2 =
      \<lparr>w_db = \<lparr>db_rows = db_rows (w_db w) @
                 [\<lparr>row_id = Suc (db_seq (w_db w)), row_url = link_url lB,
                   row_title = extractTitle_v3 (page_dom pgB),
                   row_content = extractContent_v3 (page_dom_filtered_v3 pgB),
                   row_author = page_author_v3 pgB,
                   row_word_count = wordCount_of (extractContent_v3 (page_dom_filtered_v3 pgB)),
                   row_domain = hostname s (link_url lB)\<rparr>],
               db_seq = Suc (db_seq (w_db w))\<rparr>,
       w_fetched = w_fetched w @ [link_url lB]\<rparr>"
  have "bs_world st2 = snd (scrape_v3 s (bs_world st1) (link_url lB))"
    by (simp add: s2)
  also have "bs_world st1 = w" by (simp add: s1)
  finally have w2: "bs_world st2 = W2"
    unfolding scrape_v3_page [OF b0 b1] W2_def by simp
  have c0': "getStoryByUrl (w_db (bs_world st2)) (link_url lC) = None"
    using c0 bc unfolding w2 W2_def
    by (simp add: getStoryByUrl_def find_append split: option.splits)
  note s3 = batch_step_scraped [OF c0' c1, of opts, folded st3_def]
  have c0w: "getStoryByUrl (w_db W2) (link_url lC) = None"
    using c0' unfolding w2 .
  have "bs_world st3 = snd (scrape_v3 s (bs_world st2) (link_url lC))"
    by (simp add: s3)
  then have w3: "bs_world st3 =
      \<lparr>w_db = \<lparr>db_rows = db_rows (w_db W2) @
                 [\<lparr>row_id = Suc (db_seq (w_db W2)), row_url = link_url lC,
                   row_title = extractTitle_v3 (page_dom pgC),
                   row_content = extractContent_v3 (page_dom_filtered_v3 pgC),
                   row_author = page_author_v3 pgC,
                   row_word_count = wordCount_of (extractContent_v3 (page_dom_filtered_v3 pgC)),
                   row_domain = hostname s (link_url lC)\<rparr>],
               db_seq = Suc (db_seq (w_db W2))\<rparr>,
       w_fetched = w_fetched W2 @ [link_url lC]\<rparr>"
    unfolding w2 scrape_v3_page [OF c0w c1] by simp
  have cnt: "br_successful (bs_results st3) = 2" "br_skipped (bs_results st3) = 1"
    "br_failed (bs_results st3) = 0"
    by (simp_all add: s3 s2 s1)
  have rows: "map row_url (db_rows (w_db (bs_world st3))) =
      map row_url (db_rows (w_db w)) @ [link_url lB, link_url lC]"
    unfolding w3 by (simp add: W2_def)
  have fetched: "w_fetched (bs_world st3) = w_fetched w @ [link_url lB, link_url lC]"
    unfolding w3 by (simp add: W2_def)
  show ?thesis unfolding run using cnt rows fetched by simp
qed

text \<open>The article of 667 words: its length, its words and its score.\<close>

lemma words_Suc:
  "concat (replicate (Suc n) ''xx '') @ r = CHR ''x'' # CHR ''x'' # CHR '' '' # (concat (replicate n ''xx '') @ r)"
  by simp

lemma is_ws_space: "is_ws (CHR '' '')"
  by (simp add: is_ws_def)

lemma words_length: "length (concat (replicate n ''xx '') @ ''xx'') = 3 * n + 2"
  by (induction n) simp_all

lemma words_set: "set (concat (replicate n ''xx '') @ ''xx'') \<subseteq> {CHR ''x'', CHR '' ''}"
  by (induction n) auto

lemma words_hd: "hd (concat (replicate n ''xx '') @ ''xx'') = CHR ''x''"
  by (cases n) simp_all

lemma words_last: "last (concat (replicate n ''xx '') @ ''xx'') = CHR ''x''"
  by simp

lemma words_nonempty: "concat (replicate n ''xx '') @ ''xx'' \<noteq> []"
  by simp

lemma words_trim: "trim (concat (replicate n ''xx '') @ ''xx'') = concat (replicate n ''xx '') @ ''xx''"
proof -
  let ?s = "concat (replicate n ''xx '') @ ''xx''"
  have "notrail ?s" unfolding notrail_def words_last by (simp add: not_ws_x)
  then have "trim ?s = dropWhile is_ws ?s" by (rule trim_notrail)
  also have "\<dots> = ?s"
    unfolding dropWhile_eq_self_iff words_hd by (simp add: not_ws_x)
  finally show ?thesis .
qed

lemma words_tokens:
  "count_tokens_from True (concat (replicate n ''xx '') @ ''xx'') = n + 1"
proof (induction n)
  case 0
  show ?case by (simp add: not_ws_x)
next
  case (Suc n)
  show ?case unfolding words_Suc using Suc by (simp add: not_ws_x is_ws_space)
qed

lemma words_wordCount: "length (split_ws (concat (replicate n ''xx '') @ ''xx'')) = n + 1"
  unfolding split_ws_length words_hd words_last words_tokens
  by (simp add: not_ws_x)

lemma split_runs_none:
  assumes "\<forall>c \<in> set s. \<not> sep c"
  shows "split_runs sep s = [s]"
proof -
  have t: "takeWhile (\<lambda>c. \<not> sep c) s = s" using assms by (simp add: takeWhile_eq_all_conv)
  have d: "dropWhile (\<lambda>c. \<not> sep c) s = []" using assms by simp
  show ?thesis by (subst split_runs.simps) (simp only: Let_def t d if_True refl)
qed

lemma words_sentences:
  "length (split_runs is_sentence_end (concat (replicate n ''xx '') @ ''xx'')) = 1"
proof -
  have "\<forall>c \<in> set (concat (replicate n ''xx '') @ ''xx''). \<not> is_sentence_end c"
    using words_set [of n] by (auto simp: is_sentence_end_def)
  then show ?thesis by (simp only: split_runs_none) simp
qed

lemma words_score:
  assumes "49 \<le> n"
  shows "scoreContent (concat (replicate n ''xx '') @ ''xx'') = int n + 1"
proof -
  have "\<not> (of_nat (n + 1) :: rat) < 30" using assms by simp
  then show ?thesis
    unfolding scoreContent_def Let_def words_wordCount words_sentences
    using assms words_nonempty [of n] by simp
qed

lemma wordy_text_length: "length wordy_text = 2000"
  unfolding wordy_text_def words_length by simp

lemma wordy_text_wordCount: "wordCount_of wordy_text = 667"
  unfolding wordy_text_def wordCount_of_def words_wordCount by simp

lemma wordy_text_score: "scoreContent wordy_text = 667"
  unfolding wordy_text_def using words_score [of 666] by simp

lemma wordy_text_trim: "trim wordy_text = wordy_text"
  unfolding wordy_text_def by (rule words_trim)

lemma wordy_text_nonempty: "wordy_text \<noteq> []"
  unfolding wordy_text_def by (rule words_nonempty)

lemma wordy_page_content_v3: "extractContent_v3 (page_dom_filtered_v3 wordy_page) = wordy_text"
  by (simp add: extractContent_v3_def contentSelectors_v3_def wordy_page_def Let_def
      wordy_text_trim wordy_text_score wordy_text_nonempty)

lemma short_page_content_v3:
  "extractContent_v3 (page_dom_filtered_v3 short_page) = ''No content found''"
  by code_simp

lemma no_content_found_wordCount: "wordCount_of ''No content found'' = 3"
  by code_simp

text \<open>
  C6. The crawl over three links, the first already stored, the second with a content too
  short, the third with a content of 2000 characters, gives one success and two skips.
  The loop of v2 does so (\<open>crawl_three_links\<close>). The loop of v3 does not: its test for a
  short content reads a property the result of \<open>scrape\<close> does not have, so the second
  link, whose content has 16 characters and 3 words under \<open>minWordCount = 100\<close>, is
  counted as a success: two successes and one skip.
\<close>

theorem batchScrapeFromLinks_three_links:
  "br_successful (bs_results (batchScrapeFromLinks wordy_site default_batch_options stored_a three_links)) = 2
   \<and> br_skipped (bs_results (batchScrapeFromLinks wordy_site default_batch_options stored_a three_links)) = 1
   \<and> br_failed (bs_results (batchScrapeFromLinks wordy_site default_batch_options stored_a three_links)) = 0
   \<and> getStoryByUrl (w_db stored_a) ''http://site.example/a'' \<noteq> None
   \<and> length (extractContent_v3 (page_dom_filtered_v3 short_page)) = 16
   \<and> wordCount_of (extractContent_v3 (page_dom_filtered_v3 short_page)) = 3
   \<and> length (extractContent_v3 (page_dom_filtered_v3 wordy_page)) = 2000
   \<and> wordCount_of (extractContent_v3 (page_dom_filtered_v3 wordy_page)) = 667
   \<and> minWordCount default_batch_options = 100"
proof -
  let ?lA = "\<lparr>link_url = ''http://site.example/a'', link_text = ''Story A'', link_parentText = []\<rparr>"
  let ?lB = "\<lparr>link_url = ''http://site.example/b'', link_text = ''Story B'', link_parentText = []\<rparr>"
  let ?lC = "\<lparr>link_url = ''http://site.example/c'', link_text = ''Story C'', link_parentText = []\<rparr>"
  have a: "getStoryByUrl (w_db stored_a) (link_url ?lA) =
      Some \<lparr>row_id = 1, row_url = ''http://site.example/a'', row_title = ''A Tale'',
            row_content = ''Once upon a time'', row_author = None, row_word_count = 4,
            row_domain = ''site.example''\<rparr>"
    by (simp add: getStoryByUrl_def stored_a_def)
  have b0: "getStoryByUrl (w_db stored_a) (link_url ?lB) = None"
    by (simp add: getStoryByUrl_def stored_a_def)
  have c0: "getStoryByUrl (w_db stored_a) (link_url ?lC) = None"
    by (simp add: getStoryByUrl_def stored_a_def)
  have b1: "browse wordy_site (link_url ?lB) = Inr short_page"
    by (simp add: wordy_site_def)
  have c1: "browse wordy_site (link_url ?lC) = Inr wordy_page"
    by (simp add: wordy_site_def)
  have bc: "link_url ?lB \<noteq> link_url ?lC" by simp
  have sk: "skipExisting default_batch_options" by (simp add: default_batch_options_def)
  from batch_three_links [OF a b0 c0 b1 c1 bc sk]
  have run: "br_successful (bs_results (batchScrapeFromLinks wordy_site default_batch_options stored_a three_links)) = 2
   \<and> br_skipped (bs_results (batchScrapeFromLinks wordy_site default_batch_options stored_a three_links)) = 1
   \<and> br_failed (bs_results (batchScrapeFromLinks wordy_site default_batch_options stored_a three_links)) = 0"
    by (simp add: three_links_def)
  have e: "getStoryByUrl (w_db stored_a) ''http://site.example/a'' \<noteq> None"
    using a by simp
  show ?thesis
    using run e
    by (simp add: short_page_content_v3 no_content_found_wordCount wordy_page_content_v3
        wordy_text_length wordy_text_wordCount default_batch_options_def)
qed

text \<open>
  C8. After the skip of a link for short content no record of its address is left in the
  database. The loop of v2 deletes the record (\<open>too_short_leaves_no_record\<close>). In v3
  \<open>scrape\<close> inserts the row, the test for a short content is never true and nothing
  deletes the row: the crawl of a link whose content has 3 words, under
  \<open>minWordCount = 100\<close>, counts a success and leaves the row in the table.
\<close>

theorem batchScrapeFromLinks_keeps_short_page:
  "br_successful (bs_results (batchScrapeFromLinks wordy_site default_batch_options stored_a
       [\<lparr>link_url = ''http://site.example/b'', link_text = ''Story B'', link_parentText = []\<rparr>])) = 1
   \<and> br_skipped (bs_results (batchScrapeFromLinks wordy_site default_batch_options stored_a
       [\<lparr>link_url = ''http://site.example/b'', link_text = ''Story B'', link_parentText = []\<rparr>])) = 0
   \<and> map (\<lambda>r. (row_url r, row_content r, row_word_count r))
         (db_rows (w_db (bs_world (batchScrapeFromLinks wordy_site default_batch_options stored_a
       [\<lparr>link_url = ''http://site.example/b'', link_text = ''Story B'', link_parentText = []\<rparr>]))))
       = [(''http://site.example/a'', ''Once upon a time'', 4),
          (''http://site.example/b'', ''No content found'', 3)]
   \<and> minWordCount default_batch_options = 100"
  by code_simp

end
